theory Spec2Isabelle
  imports Main "HOL-Library.Word"
begin

unbundle bit_operations_syntax

section \<open>The input recording file of PCSX2 (pcsx2/Recording/InputRecordingFile.cpp)\<close>

text \<open>
  The embedding follows the C++ source function by function. Machine integers are words:
  \<open>u8\<close> is \<open>8 word\<close>, \<open>int\<close> and \<open>uint\<close> are \<open>32 word\<close>, \<open>long\<close>, \<open>unsigned long\<close> and
  \<open>size_t\<close> are \<open>64 word\<close> (the LP64 data model, little-endian, as on x86-64 Linux, where
  the counters are wider than the four bytes the file keeps of them). The file system is
  an explicit \<open>world\<close> that every operation takes and returns.
\<close>

type_synonym byte = "8 word"
type_synonym c_int = "32 word"
type_synonym uint = "32 word"
type_synonym long = "64 word"

subsection \<open>Declarations of InputRecordingFile.h\<close>

text \<open>
  The header file that declares the structures and the layout constants is not among the
  sources, so the numbers it fixes are parameters: the capacities of the three text
  arrays of \<open>InputRecordingFileHeader\<close> and the two controller constants.
\<close>

record decls =
  emuCap :: nat
  authorCap :: nat
  gameNameCap :: nat
  controllerPortsSupported :: c_int
  controllerInputBytes :: c_int

text \<open>
  Modelled from the spec: the layout constants of InputRecordingFile.h, which is missing.
  The file starts with the header block (format version, emulator identity, author,
  title), followed by the 4-byte total frame count, the 4-byte undo count and the 1-byte
  snapshot flag; a frame record holds \<open>controllerInputBytes\<close> bytes for each port. The
  header structure is taken without padding, its format version as a single byte before
  the three character arrays.
\<close>

definition sizeof_header :: "decls \<Rightarrow> nat" where
  "sizeof_header d = 1 + emuCap d + authorCap d + gameNameCap d"

definition headerSize :: "decls \<Rightarrow> c_int" where
  "headerSize d = of_nat (sizeof_header d + 4 + 4)"

definition seekpointTotalFrames :: "decls \<Rightarrow> c_int" where
  "seekpointTotalFrames d = of_nat (sizeof_header d)"

definition seekpointUndoCount :: "decls \<Rightarrow> c_int" where
  "seekpointUndoCount d = of_nat (sizeof_header d + 4)"

definition inputBytesPerFrame :: "decls \<Rightarrow> c_int" where
  "inputBytesPerFrame d = controllerInputBytes d * controllerPortsSupported d"

text \<open>
  The declarations are well-formed when every array has at least one element and the
  constants fit the \<open>int\<close> they are declared as.
\<close>

definition wf_decls :: "decls \<Rightarrow> bool" where
  "wf_decls d \<longleftrightarrow>
     0 < emuCap d \<and> 0 < authorCap d \<and> 0 < gameNameCap d \<and>
     sizeof_header d + 8 < 2 ^ 31 \<and>
     0 < unat (controllerPortsSupported d) \<and> 0 < unat (controllerInputBytes d) \<and>
     unat (controllerInputBytes d) * unat (controllerPortsSupported d) < 2 ^ 31"

subsection \<open>Object representations\<close>

text \<open>
  \<open>fread\<close> and \<open>fwrite\<close> move the bytes of an object. An integer lies in memory with
  its low-order byte first. \<open>obj_long\<close>, \<open>obj_bool\<close> and \<open>obj_header\<close> give the bytes of
  a value; \<open>long_obj\<close>, \<open>bool_obj\<close>, \<open>u8_obj\<close> and \<open>header_obj\<close> give the value a
  sequence of bytes stands for. A one-byte object keeps its old value when no byte
  arrived.
\<close>

fun le_encode :: "nat \<Rightarrow> nat \<Rightarrow> byte list" where
  "le_encode 0 x = []"
| "le_encode (Suc n) x = of_nat (x mod 256) # le_encode n (x div 256)"

fun le_decode :: "byte list \<Rightarrow> nat" where
  "le_decode [] = 0"
| "le_decode (b # bs) = unat b + 256 * le_decode bs"

definition obj_long :: "long \<Rightarrow> byte list" where
  "obj_long v = le_encode 8 (unat v)"

definition long_obj :: "byte list \<Rightarrow> long" where
  "long_obj bs = of_nat (le_decode bs)"

definition obj_bool :: "bool \<Rightarrow> byte list" where
  "obj_bool b = [if b then 1 else 0]"

definition bool_obj :: "bool \<Rightarrow> byte list \<Rightarrow> bool" where
  "bool_obj old bs = (case bs of [] \<Rightarrow> old | b # _ \<Rightarrow> b \<noteq> 0)"

definition u8_obj :: "byte \<Rightarrow> byte list \<Rightarrow> byte" where
  "u8_obj old bs = (case bs of [] \<Rightarrow> old | b # _ \<Rightarrow> b)"

subsection \<open>InputRecordingFileHeader\<close>

record InputRecordingFileHeader =
  version :: byte
  emu :: "byte list"
  author :: "byte list"
  gameName :: "byte list"

text \<open>An array has the number of elements its declaration gives it.\<close>

definition wf_header :: "decls \<Rightarrow> InputRecordingFileHeader \<Rightarrow> bool" where
  "wf_header d h \<longleftrightarrow>
     length (emu h) = emuCap d \<and> length (author h) = authorCap d \<and>
     length (gameName h) = gameNameCap d"

definition obj_header :: "InputRecordingFileHeader \<Rightarrow> byte list" where
  "obj_header h = version h # emu h @ author h @ gameName h"

definition header_obj :: "decls \<Rightarrow> InputRecordingFileHeader \<Rightarrow> byte list \<Rightarrow> InputRecordingFileHeader" where
  "header_obj d h bs =
     \<lparr> version = u8_obj (version h) bs,
       emu = take (emuCap d) (drop 1 bs),
       author = take (authorCap d) (drop (1 + emuCap d) bs),
       gameName = take (gameNameCap d) (drop (1 + emuCap d + authorCap d) bs) \<rparr>"

text \<open>\<open>memset(a, v, n)\<close>: the first \<open>n\<close> bytes from the start of the array become \<open>v\<close>.\<close>

definition memset :: "byte list \<Rightarrow> byte \<Rightarrow> nat \<Rightarrow> byte list" where
  "memset a v n = replicate n v @ drop n a"

text \<open>\<open>Init\<close> clears \<open>author\<close> and \<open>gameName\<close>; \<open>ArraySize\<close> is the declared capacity.\<close>

definition Init :: "decls \<Rightarrow> InputRecordingFileHeader \<Rightarrow> InputRecordingFileHeader" where
  "Init d h =
     (let h1 = h\<lparr>author := memset (author h) 0 (authorCap d)\<rparr>
      in h1\<lparr>gameName := memset (gameName h1) 0 (gameNameCap d)\<rparr>)"

text \<open>
  A write through an array index is checked: \<open>None\<close> is a write outside the array, which
  the C++ program would perform on memory that is not the array's.
\<close>

definition store :: "byte list \<Rightarrow> nat \<Rightarrow> byte \<Rightarrow> byte list option" where
  "store a i v = (if i < length a then Some (a[i := v]) else None)"

text \<open>
  \<open>strncpy(dest, src, n)\<close> writes exactly \<open>n\<close> characters from index \<open>i\<close> on: those of
  the source up to its terminator, then zeros. The source is the list of characters at
  \<open>pSrc\<close>; it ends at the first zero or at the end of the list.
\<close>

fun strncpy :: "byte list \<Rightarrow> nat \<Rightarrow> byte list \<Rightarrow> nat \<Rightarrow> byte list option" where
  "strncpy dest i src 0 = Some dest"
| "strncpy dest i [] (Suc n) =
     (case store dest i 0 of None \<Rightarrow> None | Some dest' \<Rightarrow> strncpy dest' (Suc i) [] n)"
| "strncpy dest i (c # cs) (Suc n) =
     (if c = 0
      then (case store dest i 0 of None \<Rightarrow> None | Some dest' \<Rightarrow> strncpy dest' (Suc i) [] n)
      else (case store dest i c of None \<Rightarrow> None | Some dest' \<Rightarrow> strncpy dest' (Suc i) cs n))"

text \<open>\<open>strcpy_safe<charCount>\<close>, with \<open>charCount\<close> the declared size of \<open>output\<close>.\<close>

definition strcpy_safe :: "nat \<Rightarrow> byte list \<Rightarrow> byte list \<Rightarrow> byte list option" where
  "strcpy_safe charCount output pSrc =
     (case strncpy output 0 pSrc charCount of
        None \<Rightarrow> None
      | Some output' \<Rightarrow>
          if charCount = 0 then None else store output' (charCount - 1) 0)"

definition SetEmulatorVersion :: "decls \<Rightarrow> InputRecordingFileHeader \<Rightarrow> byte list \<Rightarrow> InputRecordingFileHeader option" where
  "SetEmulatorVersion d h version' =
     map_option (\<lambda>a. h\<lparr>emu := a\<rparr>) (strcpy_safe (emuCap d) (emu h) version')"

definition SetAuthor :: "decls \<Rightarrow> InputRecordingFileHeader \<Rightarrow> byte list \<Rightarrow> InputRecordingFileHeader option" where
  "SetAuthor d h author' =
     map_option (\<lambda>a. h\<lparr>author := a\<rparr>) (strcpy_safe (authorCap d) (author h) author')"

definition SetGameName :: "decls \<Rightarrow> InputRecordingFileHeader \<Rightarrow> byte list \<Rightarrow> InputRecordingFileHeader option" where
  "SetGameName d h gameName' =
     map_option (\<lambda>a. h\<lparr>gameName := a\<rparr>) (strcpy_safe (gameNameCap d) (gameName h) gameName')"

text \<open>The characters a reader of the C string sees: those before the first zero.\<close>

definition c_str :: "byte list \<Rightarrow> byte list" where
  "c_str s = takeWhile (\<lambda>c. c \<noteq> 0) s"

subsection \<open>Files and streams\<close>

text \<open>
  A file is its bytes. The world holds the files by path, says which paths the process
  may open for reading and writing, bounds the size a file can grow to, and collects the
  lines written to the console.

  A stream (\<open>FILE*\<close>) is buffered: \<open>fwrite\<close> puts bytes into the buffer of the stream
  and returns the count; the bytes reach the file when the stream is flushed, which
  \<open>fflush\<close>, \<open>fseek\<close>, \<open>rewind\<close>, \<open>fread\<close> and \<open>fclose\<close> do. A stream is the path it
  was opened on, the offset \<open>fpos\<close> in the file at which its buffer starts, and the
  buffered bytes \<open>wbuf\<close>. The buffer is taken to hold whatever the code writes between
  two flushes (a header block, or a few bytes).
\<close>

datatype logmsg = HeaderInvalid | OpenFailed | UnsupportedVersion byte

record world =
  files :: "string \<Rightarrow> byte list option"
  permitted :: "string \<Rightarrow> bool"
  diskLimit :: nat
  console :: "logmsg list"

record FILE =
  fpath :: string
  fpos :: nat
  wbuf :: "byte list"

definition consoleLog :: "logmsg \<Rightarrow> world \<Rightarrow> world" where
  "consoleLog m w = w\<lparr>console := console w @ [m]\<rparr>"

definition file_bytes :: "world \<Rightarrow> string \<Rightarrow> byte list" where
  "file_bytes w path = (case files w path of None \<Rightarrow> [] | Some bs \<Rightarrow> bs)"

definition contents :: "world \<Rightarrow> FILE \<Rightarrow> byte list" where
  "contents w f = file_bytes w (fpath f)"

text \<open>\<open>wxFopen(path, "wb+")\<close> creates or truncates; \<open>"rb+"\<close> needs the file to exist.\<close>

definition fresh_stream :: "string \<Rightarrow> FILE" where
  "fresh_stream path = \<lparr>fpath = path, fpos = 0, wbuf = []\<rparr>"

definition wxFopen_wb :: "world \<Rightarrow> string \<Rightarrow> FILE option \<times> world" where
  "wxFopen_wb w path =
     (if permitted w path
      then (Some (fresh_stream path), w\<lparr>files := (files w)(path \<mapsto> [])\<rparr>)
      else (None, w))"

definition wxFopen_rb :: "world \<Rightarrow> string \<Rightarrow> FILE option \<times> world" where
  "wxFopen_rb w path =
     (if permitted w path \<and> files w path \<noteq> None
      then (Some (fresh_stream path), w)
      else (None, w))"

text \<open>
  Writing at a position replaces the bytes there and extends the file, with zeros in a
  gap behind the old end.
\<close>

definition overwrite :: "byte list \<Rightarrow> nat \<Rightarrow> byte list \<Rightarrow> byte list" where
  "overwrite old p bs =
     take p old @ replicate (p - length old) 0 @ bs @ drop (p + length bs) old"

text \<open>
  What the disk takes of a write of \<open>bs\<close> at offset \<open>p\<close>: the bytes that lie below the
  size a file can grow to; when none does, the file is left as it is.
\<close>

definition disk_write :: "world \<Rightarrow> string \<Rightarrow> nat \<Rightarrow> byte list \<Rightarrow> world" where
  "disk_write w path p bs =
     (case take (diskLimit w - p) bs of
        [] \<Rightarrow> w
      | b # bs' \<Rightarrow> w\<lparr>files := (files w)(path \<mapsto> overwrite (file_bytes w path) p (b # bs'))\<rparr>)"

text \<open>
  \<open>fflush\<close> hands the buffer to the disk and empties it; it reports failure when the
  disk did not take all of it. The code never looks at this result.
\<close>

definition fflush :: "FILE \<Rightarrow> world \<Rightarrow> c_int \<times> FILE \<times> world" where
  "fflush f w =
     (if diskLimit w < fpos f + length (wbuf f) \<and> wbuf f \<noteq> [] then - 1 else 0,
      f\<lparr>fpos := fpos f + length (wbuf f), wbuf := []\<rparr>,
      disk_write w (fpath f) (fpos f) (wbuf f))"

text \<open>
  \<open>fseek(f, offset, SEEK_SET)\<close> flushes first. It fails when the flush fails or the
  offset is negative, and then does not move.
\<close>

definition fseek :: "FILE \<Rightarrow> long \<Rightarrow> world \<Rightarrow> c_int \<times> FILE \<times> world" where
  "fseek f offset w =
     (case fflush f w of
        (r, f1, w1) \<Rightarrow>
          if r = 0
          then (if offset <s 0 then (- 1, f1, w1) else (0, f1\<lparr>fpos := unat offset\<rparr>, w1))
          else (- 1, f1, w1))"

text \<open>\<open>rewind\<close> is \<open>fseek\<close> to offset 0 with the result dropped.\<close>

definition rewind :: "FILE \<Rightarrow> world \<Rightarrow> FILE \<times> world" where
  "rewind f w = (case fseek f 0 w of (r, f1, w1) \<Rightarrow> (f1, w1))"

text \<open>
  \<open>fread(buf, sz, cnt, f)\<close> copies the bytes the file has from the position on, at
  most \<open>sz * cnt\<close>, over the start of the object \<open>buf\<close>, and returns the number of
  whole items among them. A stream that was being written is flushed first.
\<close>

definition fread :: "byte list \<Rightarrow> nat \<Rightarrow> nat \<Rightarrow> FILE \<Rightarrow> world \<Rightarrow> nat \<times> byte list \<times> FILE \<times> world" where
  "fread buf sz cnt f w =
     (case fflush f w of
        (r, f1, w1) \<Rightarrow>
          (let got = take (sz * cnt) (drop (fpos f1) (contents w1 f1))
           in (length got div sz, got @ drop (length got) buf,
               f1\<lparr>fpos := fpos f1 + length got\<rparr>, w1)))"

text \<open>
  \<open>fwrite(buf, sz, cnt, f)\<close> appends the first \<open>sz * cnt\<close> bytes of the object to the
  buffer and returns \<open>cnt\<close>; the world is not touched.
\<close>

definition fwrite :: "byte list \<Rightarrow> nat \<Rightarrow> nat \<Rightarrow> FILE \<Rightarrow> nat \<times> FILE" where
  "fwrite buf sz cnt f = (cnt, f\<lparr>wbuf := wbuf f @ take (sz * cnt) buf\<rparr>)"

text \<open>\<open>fclose\<close> flushes; the stream is gone afterwards.\<close>

definition fclose :: "FILE \<Rightarrow> world \<Rightarrow> world" where
  "fclose f w = snd (snd (fflush f w))"

subsection \<open>InputRecordingFile\<close>

record InputRecordingSavestate =
  fromSavestate :: bool

record InputRecordingFile =
  header :: InputRecordingFileHeader
  filename :: string
  recordingFile :: "FILE option"
  savestate :: InputRecordingSavestate
  totalFrames :: long
  undoCount :: long

definition Close :: "world \<Rightarrow> InputRecordingFile \<Rightarrow> bool \<times> world \<times> InputRecordingFile" where
  "Close w s =
     (case recordingFile s of
        None \<Rightarrow> (False, w, s)
      | Some f \<Rightarrow> (True, fclose f w, s\<lparr>recordingFile := None, filename := []\<rparr>))"

definition IsFileOpen :: "InputRecordingFile \<Rightarrow> bool" where
  "IsFileOpen s = (recordingFile s \<noteq> None)"

definition FromSaveState :: "InputRecordingFile \<Rightarrow> bool" where
  "FromSaveState s = fromSavestate (savestate s)"

text \<open>\<open>IncrementUndoCount\<close> seeks and writes; it does not flush.\<close>

definition IncrementUndoCount :: "decls \<Rightarrow> world \<Rightarrow> InputRecordingFile \<Rightarrow> world \<times> InputRecordingFile" where
  "IncrementUndoCount d w s =
     (let s1 = s\<lparr>undoCount := undoCount s + 1\<rparr>
      in case recordingFile s1 of
           None \<Rightarrow> (w, s1)
         | Some f \<Rightarrow>
             (case fseek f (scast (seekpointUndoCount d)) w of
                (r, f1, w1) \<Rightarrow>
                  (case fwrite (obj_long (undoCount s1)) 4 1 f1 of
                     (n, f2) \<Rightarrow> (w1, s1\<lparr>recordingFile := Some f2\<rparr>))))"

definition verifyRecordingFileHeader :: "decls \<Rightarrow> world \<Rightarrow> InputRecordingFile \<Rightarrow> bool \<times> world \<times> InputRecordingFile" where
  "verifyRecordingFileHeader d w s =
     (case recordingFile s of
        None \<Rightarrow> (False, w, s)
      | Some f \<Rightarrow>
          (case rewind f w of
             (f0, w0) \<Rightarrow>
               (case fread (obj_header (header s)) (sizeof_header d) 1 f0 w0 of
                  (n1, b1, f1, w1) \<Rightarrow>
                    (let s1 = s\<lparr>header := header_obj d (header s) b1, recordingFile := Some f1\<rparr>
                     in if n1 \<noteq> 1 then (False, w1, s1)
                        else
                          (case fread (obj_long (totalFrames s1)) 4 1 f1 w1 of
                             (n2, b2, f2, w2) \<Rightarrow>
                               (let s2 = s1\<lparr>totalFrames := long_obj b2, recordingFile := Some f2\<rparr>
                                in if n2 \<noteq> 1 then (False, w2, s2)
                                   else
                                     (case fread (obj_long (undoCount s2)) 4 1 f2 w2 of
                                        (n3, b3, f3, w3) \<Rightarrow>
                                          (let s3 = s2\<lparr>undoCount := long_obj b3, recordingFile := Some f3\<rparr>
                                           in if n3 \<noteq> 1 then (False, w3, s3)
                                              else
                                                (case fread (obj_bool (fromSavestate (savestate s3))) 1 1 f3 w3 of
                                                   (n4, b4, f4, w4) \<Rightarrow>
                                                     (let s4 = s3\<lparr>savestate := (savestate s3)\<lparr>fromSavestate :=
                                                                   bool_obj (fromSavestate (savestate s3)) b4\<rparr>,
                                                                 recordingFile := Some f4\<rparr>
                                                      in if n4 \<noteq> 1 then (False, w4, s4)
                                                         else if version (header s4) \<noteq> 1
                                                         then (False,
                                                               consoleLog (UnsupportedVersion (version (header s4))) w4,
                                                               s4)
                                                         else (True, w4, s4)))))))))))"

definition open' :: "decls \<Rightarrow> world \<Rightarrow> InputRecordingFile \<Rightarrow> string \<Rightarrow> bool \<Rightarrow> bool \<times> world \<times> InputRecordingFile" where
  "open' d w s path newRecording =
     (if newRecording
      then
        (let (fp, w1) = wxFopen_wb w path;
             s1 = s\<lparr>recordingFile := fp\<rparr>
         in if fp \<noteq> None
            then (True, w1, s1\<lparr>filename := path, totalFrames := 0, undoCount := 0,
                                header := Init d (header s1)\<rparr>)
            else (False, consoleLog OpenFailed w1, s1))
      else
        (let (fp, w1) = wxFopen_rb w path;
             s1 = s\<lparr>recordingFile := fp\<rparr>
         in if fp \<noteq> None
            then
              (let (ok, w2, s2) = verifyRecordingFileHeader d w1 s1
               in if ok then (True, w2, s2\<lparr>filename := path\<rparr>)
                  else (case Close w2 s2 of
                          (c, w3, s3) \<Rightarrow> (False, consoleLog HeaderInvalid w3, s3)))
            else (False, consoleLog OpenFailed w1, s1)))"

definition OpenNew :: "decls \<Rightarrow> world \<Rightarrow> InputRecordingFile \<Rightarrow> string \<Rightarrow> bool \<Rightarrow> bool \<times> world \<times> InputRecordingFile" where
  "OpenNew d w s path fromSavestate' =
     (let (ok, w1, s1) = open' d w s path True
      in if \<not> ok then (False, w1, s1)
         else (True, w1, s1\<lparr>savestate := (savestate s1)\<lparr>fromSavestate := fromSavestate'\<rparr>\<rparr>))"

definition OpenExisting :: "decls \<Rightarrow> world \<Rightarrow> InputRecordingFile \<Rightarrow> string \<Rightarrow> bool \<times> world \<times> InputRecordingFile" where
  "OpenExisting d w s path = open' d w s path False"

text \<open>
  \<open>getRecordingBlockSeekPoint\<close>: \<open>headerSize + sizeof(bool)\<close> is computed in \<open>size_t\<close>,
  \<open>frame * inputBytesPerFrame\<close> in \<open>long\<close>, and the sum is returned as \<open>long\<close>.
\<close>

definition getRecordingBlockSeekPoint :: "decls \<Rightarrow> long \<Rightarrow> long" where
  "getRecordingBlockSeekPoint d frame =
     scast (headerSize d) + 1 + frame * scast (inputBytesPerFrame d)"

text \<open>
  The offsets of the two single-byte paths. The \<open>uint\<close> frame becomes the \<open>long\<close>
  argument; the product with \<open>port\<close> is a \<open>uint\<close> product. The read side multiplies by
  \<open>controllerInputBytes\<close>, the write side by the literal 18.
\<close>

definition readSeek :: "decls \<Rightarrow> uint \<Rightarrow> uint \<Rightarrow> uint \<Rightarrow> long" where
  "readSeek d frame port bufIndex =
     getRecordingBlockSeekPoint d (ucast frame) + ucast (controllerInputBytes d * port) + ucast bufIndex"

definition writeSeek :: "decls \<Rightarrow> uint \<Rightarrow> uint \<Rightarrow> uint \<Rightarrow> long" where
  "writeSeek d frame port bufIndex =
     getRecordingBlockSeekPoint d (ucast frame) + ucast (18 * port) + ucast bufIndex"

definition ReadKeyBuffer :: "decls \<Rightarrow> world \<Rightarrow> InputRecordingFile \<Rightarrow> byte \<Rightarrow> uint \<Rightarrow> uint \<Rightarrow> uint \<Rightarrow>
   bool \<times> byte \<times> world \<times> InputRecordingFile" where
  "ReadKeyBuffer d w s result frame port bufIndex =
     (case recordingFile s of
        None \<Rightarrow> (False, result, w, s)
      | Some f \<Rightarrow>
          (case fseek f (readSeek d frame port bufIndex) w of
             (r, f1, w1) \<Rightarrow>
               if r \<noteq> 0 then (False, result, w1, s\<lparr>recordingFile := Some f1\<rparr>)
               else
                 (case fread [result] 1 1 f1 w1 of
                    (n, b, f2, w2) \<Rightarrow>
                      if n \<noteq> 1 then (False, u8_obj result b, w2, s\<lparr>recordingFile := Some f2\<rparr>)
                      else (True, u8_obj result b, w2, s\<lparr>recordingFile := Some f2\<rparr>))))"

text \<open>\<open>WriteKeyBuffer\<close> flushes after the write and returns true whatever the flush did.\<close>

definition WriteKeyBuffer :: "decls \<Rightarrow> world \<Rightarrow> InputRecordingFile \<Rightarrow> uint \<Rightarrow> uint \<Rightarrow> uint \<Rightarrow> byte \<Rightarrow> bool \<times> world \<times> InputRecordingFile" where
  "WriteKeyBuffer d w s frame port bufIndex buf =
     (case recordingFile s of
        None \<Rightarrow> (False, w, s)
      | Some f \<Rightarrow>
          (case fseek f (writeSeek d frame port bufIndex) w of
             (r, f1, w1) \<Rightarrow>
               if r \<noteq> 0 then (False, w1, s\<lparr>recordingFile := Some f1\<rparr>)
               else
                 (case fwrite [buf] 1 1 f1 of
                    (n, f2) \<Rightarrow>
                      if n \<noteq> 1 then (False, w1, s\<lparr>recordingFile := Some f2\<rparr>)
                      else
                        (case fflush f2 w1 of
                           (r3, f3, w3) \<Rightarrow> (True, w3, s\<lparr>recordingFile := Some f3\<rparr>)))))"

text \<open>\<open>SetTotalFrames\<close> seeks and writes; it does not flush.\<close>

definition SetTotalFrames :: "decls \<Rightarrow> world \<Rightarrow> InputRecordingFile \<Rightarrow> long \<Rightarrow> world \<times> InputRecordingFile" where
  "SetTotalFrames d w s frame =
     (case recordingFile s of
        None \<Rightarrow> (w, s)
      | Some f \<Rightarrow>
          if frame \<le>s totalFrames s then (w, s)
          else
            (let s1 = s\<lparr>totalFrames := frame\<rparr>
             in case fseek f (scast (seekpointTotalFrames d)) w of
                  (r, f1, w1) \<Rightarrow>
                    (case fwrite (obj_long (totalFrames s1)) 4 1 f1 of
                       (n, f2) \<Rightarrow> (w1, s1\<lparr>recordingFile := Some f2\<rparr>))))"

text \<open>\<open>WriteHeader\<close> flushes after the four writes and returns true whatever the flush did.\<close>

definition WriteHeader :: "decls \<Rightarrow> world \<Rightarrow> InputRecordingFile \<Rightarrow> bool \<times> world \<times> InputRecordingFile" where
  "WriteHeader d w s =
     (case recordingFile s of
        None \<Rightarrow> (False, w, s)
      | Some f \<Rightarrow>
          (case rewind f w of
             (f0, w0) \<Rightarrow>
               (case fwrite (obj_header (header s)) (sizeof_header d) 1 f0 of
                  (n1, f1) \<Rightarrow>
                    if n1 \<noteq> 1 then (False, w0, s\<lparr>recordingFile := Some f1\<rparr>)
                    else
                      (case fwrite (obj_long (totalFrames s)) 4 1 f1 of
                         (n2, f2) \<Rightarrow>
                           if n2 \<noteq> 1 then (False, w0, s\<lparr>recordingFile := Some f2\<rparr>)
                           else
                             (case fwrite (obj_long (undoCount s)) 4 1 f2 of
                                (n3, f3) \<Rightarrow>
                                  if n3 \<noteq> 1 then (False, w0, s\<lparr>recordingFile := Some f3\<rparr>)
                                  else
                                    (case fwrite (obj_bool (fromSavestate (savestate s))) 1 1 f3 of
                                       (n4, f4) \<Rightarrow>
                                         if n4 \<noteq> 1 then (False, w0, s\<lparr>recordingFile := Some f4\<rparr>)
                                         else
                                           (case fflush f4 w0 of
                                              (r5, f5, w5) \<Rightarrow>
                                                (True, w5, s\<lparr>recordingFile := Some f5\<rparr>))))))))"

subsection \<open>BulkReadPadData\<close>

text \<open>
  \<open>PadData\<close> is declared elsewhere; its default constructor and \<open>UpdateControllerData\<close> are
  parameters. \<open>frameData\<close> is built from the whole array \<open>padBytes\<close>, index by index.
\<close>

record 'pd PadData_decl =
  PadData_new :: 'pd
  UpdateControllerData :: "nat \<Rightarrow> byte \<Rightarrow> 'pd \<Rightarrow> 'pd"

fun frameData_loop :: "'pd PadData_decl \<Rightarrow> byte list \<Rightarrow> nat \<Rightarrow> 'pd \<Rightarrow> 'pd" where
  "frameData_loop P [] i frameData = frameData"
| "frameData_loop P (b # bs) i frameData =
     frameData_loop P bs (Suc i) (UpdateControllerData P i b frameData)"

text \<open>\<open>std::map::insert\<close> keeps an entry that is already there.\<close>

definition map_insert :: "(uint \<Rightarrow> 'pd option) \<Rightarrow> uint \<Rightarrow> 'pd \<Rightarrow> (uint \<Rightarrow> 'pd option)" where
  "map_insert data k v = (case data k of None \<Rightarrow> data(k \<mapsto> v) | Some _ \<Rightarrow> data)"

text \<open>
  The loop variable is an \<open>int\<close>, compared with the \<open>long\<close> bound; incrementing it at
  \<open>INT_MAX\<close> is a signed overflow, which the model reports instead of a result. The
  result of \<open>fseek\<close> is not looked at, and a frame is inserted when \<open>fread\<close> returns
  anything but 0.
\<close>

datatype error = SignedOverflow

function BulkReadPadData_loop ::
  "decls \<Rightarrow> 'pd PadData_decl \<Rightarrow> long \<Rightarrow> uint \<Rightarrow> c_int \<Rightarrow> byte list \<Rightarrow> FILE \<Rightarrow> world \<Rightarrow>
   (uint \<Rightarrow> 'pd option) \<Rightarrow> error + ((uint \<Rightarrow> 'pd option) \<times> FILE \<times> world)"
where
  "BulkReadPadData_loop d P frameEnd port frame padBytes f w data =
     (if scast frame <s frameEnd
      then
        (let seek = getRecordingBlockSeekPoint d (scast frame) + ucast (controllerInputBytes d * port);
             sk = fseek f seek w;
             rd = fread padBytes 1 (length padBytes) (fst (snd sk)) (snd (snd sk));
             padBytes' = fst (snd rd);
             data' = (if fst rd \<noteq> 0
                      then map_insert data frame (frameData_loop P padBytes' 0 (PadData_new P))
                      else data)
         in if frame = 0x7FFFFFFF then Inl SignedOverflow
            else BulkReadPadData_loop d P frameEnd port (frame + 1) padBytes'
                   (fst (snd (snd rd))) (snd (snd (snd rd))) data')
      else Inr (data, f, w))"
  by pat_completeness auto

termination BulkReadPadData_loop
proof (relation "measure (\<lambda>(d, P, frameEnd, port, frame, padBytes, f, w, data). nat (sint frameEnd - sint frame))", goal_cases)
  case 1
  show ?case by simp
next
  case prems: (2 d P frameEnd port frame padBytes f w data seek sk rd padBytes' data')
  have lt: "sint frame < sint frameEnd"
    using prems(1) by (simp add: word_sless_alt sint_up_scast is_up)
  have ne: "frame \<noteq> 0x7FFFFFFF" by (rule prems(7))
  have "sint frame \<noteq> 2147483647"
  proof
    assume a: "sint frame = 2147483647"
    have "frame = scast frame" by simp
    also have "\<dots> = word_of_int (sint frame)" by (rule scast_eq)
    also have "\<dots> = word_of_int 2147483647" by (simp only: a)
    finally show False using ne by simp
  qed
  moreover have "- (2 ^ 31) \<le> sint frame" "sint frame < 2 ^ 31"
    using sint_ge [of frame] sint_lt [of frame] by simp_all
  ultimately have c: "- (2 ^ 31) \<le> sint frame + 1" "sint frame + 1 < 2 ^ 31" by simp_all
  have "sint (frame + 1) = signed_take_bit 31 (sint frame + sint (1 :: 32 word))"
    by (simp only: sint_word_add) simp
  also have "\<dots> = signed_take_bit 31 (sint frame + 1)" by simp
  also have "\<dots> = sint frame + 1" by (rule signed_take_bit_int_eq_self [OF c])
  finally have "sint (frame + 1) = sint frame + 1" .
  with lt show ?case by simp
qed

declare BulkReadPadData_loop.simps [simp del]

text \<open>
  \<open>padBytes\<close> is a local array that is not initialised: it starts with whatever the stack
  holds, given here as \<open>stack\<close>. The start of the range is narrowed to the \<open>int\<close> loop
  variable.
\<close>

definition BulkReadPadData ::
  "decls \<Rightarrow> 'pd PadData_decl \<Rightarrow> world \<Rightarrow> InputRecordingFile \<Rightarrow> (nat \<Rightarrow> byte) \<Rightarrow> long \<Rightarrow> long \<Rightarrow> uint \<Rightarrow>
   error + ((uint \<Rightarrow> 'pd option) \<times> world \<times> InputRecordingFile)"
where
  "BulkReadPadData d P w s stack frameStart frameEnd port =
     (case recordingFile s of
        None \<Rightarrow> Inr (Map.empty, w, s)
      | Some f \<Rightarrow>
          (let frameStart' = (if frameStart <s 0 then 0 else frameStart);
               padBytes = map stack [0..<unat (controllerInputBytes d)]
           in case BulkReadPadData_loop d P frameEnd port (ucast frameStart') padBytes f w Map.empty of
                Inl e \<Rightarrow> Inl e
              | Inr (data, f', w') \<Rightarrow> Inr (data, w', s\<lparr>recordingFile := Some f'\<rparr>)))"

subsection \<open>The offset formula of the specification\<close>

text \<open>
  The specification's words, over the integers: the offset of a frame record is the size
  of the header block (with the two counters) plus the size of the snapshot flag plus
  \<open>frame\<close> times the bytes of a frame; the offset of a byte adds \<open>port\<close> times
  \<open>controllerInputBytes\<close> and the byte index.
\<close>

definition frameRecordOffset :: "decls \<Rightarrow> int \<Rightarrow> int" where
  "frameRecordOffset d frame =
     int (sizeof_header d + 4 + 4) + 1
       + frame * (sint (controllerInputBytes d) * sint (controllerPortsSupported d))"

definition byteOffset :: "decls \<Rightarrow> int \<Rightarrow> int \<Rightarrow> int \<Rightarrow> int" where
  "byteOffset d frame port byteIndex =
     frameRecordOffset d frame + port * sint (controllerInputBytes d) + byteIndex"

subsection \<open>Concrete instances\<close>

text \<open>
  The values PCSX2 gives the declarations (50, 255 and 255 characters, two ports of 18
  bytes), a header as a loaded recording has it, and a small world with one recording.
\<close>

definition pcsx2_decls :: decls where
  "pcsx2_decls = \<lparr> emuCap = 50, authorCap = 255, gameNameCap = 255,
                    controllerPortsSupported = 2, controllerInputBytes = 18 \<rparr>"

definition loaded_header :: InputRecordingFileHeader where
  "loaded_header = \<lparr> version = 1,
                      emu = [80, 67, 83, 88, 50] @ replicate 45 0,
                      author = [65, 66] @ replicate 253 0,
                      gameName = [71] @ replicate 254 0 \<rparr>"

definition closed_store :: InputRecordingFile where
  "closed_store = \<lparr> header = loaded_header, filename = [], recordingFile = None,
                     savestate = \<lparr> fromSavestate = False \<rparr>, totalFrames = 0, undoCount = 0 \<rparr>"

definition open_store :: InputRecordingFile where
  "open_store = closed_store \<lparr> filename := ''a.p2m2'',
                                recordingFile := Some (fresh_stream ''a.p2m2'') \<rparr>"

definition empty_world :: world where
  "empty_world = \<lparr> files = (\<lambda>p. None), permitted = (\<lambda>p. p = ''a.p2m2''),
                    diskLimit = 1000000, console = [] \<rparr>"

text \<open>A world in which the recording exists and is empty.\<close>

definition one_file_world :: world where
  "one_file_world = empty_world\<lparr>files := (\<lambda>p. if p = ''a.p2m2'' then Some [] else None)\<rparr>"

subsection \<open>Truncating copy, as the specification words it\<close>

text \<open>
  A field of capacity \<open>cap\<close> holds a copy of \<open>src\<close> with truncation and forced
  termination: it has exactly \<open>cap\<close> bytes, the last one is zero, and the bytes before
  are the first \<open>cap - 1\<close> characters of the source, padded with zeros.
\<close>

definition copied_truncated :: "nat \<Rightarrow> byte list \<Rightarrow> byte list \<Rightarrow> bool" where
  "copied_truncated cap src a \<longleftrightarrow>
     length a = cap \<and> a ! (cap - 1) = 0 \<and>
     take (cap - 1) a = take (cap - 1) (c_str src @ replicate cap 0)"

subsection \<open>Flushing\<close>

text \<open>
  The world after the buffer of a stream has gone to the disk, and the condition under
  which the disk takes all of it.
\<close>

definition flushed :: "world \<Rightarrow> FILE \<Rightarrow> world" where
  "flushed w f = disk_write w (fpath f) (fpos f) (wbuf f)"

definition flushes :: "world \<Rightarrow> FILE \<Rightarrow> bool" where
  "flushes w f \<longleftrightarrow> wbuf f = [] \<or> fpos f + length (wbuf f) \<le> diskLimit w"


subsection \<open>The header block\<close>

text \<open>
  The bytes \<open>WriteHeader\<close> puts at the start of the file, in their order: the header
  structure, four bytes of each counter, and the snapshot flag.
\<close>

definition header_block :: "InputRecordingFile \<Rightarrow> byte list" where
  "header_block s =
     obj_header (header s) @ le_encode 4 (unat (totalFrames s)) @ le_encode 4 (unat (undoCount s)) @
     obj_bool (fromSavestate (savestate s))"

text \<open>
  The store after \<open>verifyRecordingFileHeader\<close> has read a header block from a file with
  the bytes \<open>c\<close>: each \<open>fread\<close> has copied its bytes over the start of the object it
  reads into.
\<close>

definition loaded_store :: "decls \<Rightarrow> byte list \<Rightarrow> InputRecordingFile \<Rightarrow> FILE \<Rightarrow> InputRecordingFile" where
  "loaded_store d c t g =
     t\<lparr>header := header_obj d (header t)
                   (take (sizeof_header d) c @ drop (sizeof_header d) (obj_header (header t))),
       totalFrames := long_obj (take 4 (drop (sizeof_header d) c) @ drop 4 (obj_long (totalFrames t))),
       undoCount := long_obj (take 4 (drop (sizeof_header d + 4) c) @ drop 4 (obj_long (undoCount t))),
       savestate := (savestate t)\<lparr>fromSavestate :=
                      bool_obj (fromSavestate (savestate t))
                        (take 1 (drop (sizeof_header d + 8) c) @ drop 1 (obj_bool (fromSavestate (savestate t))))\<rparr>,
       recordingFile := Some (g\<lparr>fpos := sizeof_header d + 9, wbuf := []\<rparr>)\<rparr>"

text \<open>The world after the open store has written its header block to the empty recording.\<close>

definition written_world :: world where
  "written_world = fst (snd (WriteHeader pcsx2_decls one_file_world open_store))"

text \<open>
  A session on the recording: the open store writes its header block, sets the total
  frame count to \<open>2^32 + 5\<close>, and is closed. And a store whose counters both exceed
  \<open>2^32\<close>.
\<close>

definition written_store :: InputRecordingFile where
  "written_store = snd (snd (WriteHeader pcsx2_decls one_file_world open_store))"

definition counted_world :: world where
  "counted_world = fst (SetTotalFrames pcsx2_decls written_world written_store 4294967301)"

definition counted_store :: InputRecordingFile where
  "counted_store = snd (SetTotalFrames pcsx2_decls written_world written_store 4294967301)"

definition closed_world :: world where
  "closed_world = fst (snd (Close counted_world counted_store))"

definition big_store :: InputRecordingFile where
  "big_store = open_store\<lparr>totalFrames := 4294967301, undoCount := 4294967299\<rparr>"

text \<open>
  A recording that ends inside a block: after the header block it holds 5 of the 18
  bytes of frame 0, port 0. And a \<open>PadData\<close> that keeps the bytes it is given, in order.
\<close>

definition truncated_world :: world where
  "truncated_world = one_file_world\<lparr>files := (files one_file_world)
      (''a.p2m2'' \<mapsto> header_block open_store @ [1, 2, 3, 4, 5])\<rparr>"

definition bytes_PadData :: "byte list PadData_decl" where
  "bytes_PadData = \<lparr>PadData_new = [], UpdateControllerData = (\<lambda>i b pd. pd @ [b])\<rparr>"

section \<open>Properties\<close>


subsection \<open>Text fields\<close>

lemma take_pad_Suc: "take n (xs @ replicate (Suc n) z) = take n (xs @ replicate n z)"
  by (simp add: min_def del: replicate_Suc)

lemma update_last: "length ys = m \<Longrightarrow> (ys @ [x])[m := v] = ys @ [v]"
  by (simp add: list_update_append)

lemma strncpy_result:
  "i + n \<le> length dest \<Longrightarrow>
   strncpy dest i src n = Some (take i dest @ take n (c_str src @ replicate n 0) @ drop (i + n) dest)"
proof (induction dest i src n rule: strncpy.induct)
  case (1 dest i src)
  then show ?case by simp
next
  case (2 dest i n)
  then show ?case
    by (simp add: store_def c_str_def take_Suc_conv_app_nth ac_simps)
next
  case (3 dest i c cs n)
  have pad: "take n (c_str cs @ replicate (Suc n) 0) = take n (c_str cs @ replicate n 0)"
    by (rule take_pad_Suc)
  show ?case
  proof (cases "c = 0")
    case True
    with 3 show ?thesis
      by (simp add: store_def c_str_def take_Suc_conv_app_nth ac_simps)
  next
    case False
    with 3 have "strncpy dest i (c # cs) (Suc n) =
        Some (take (Suc i) (dest[i := c]) @ take n (c_str cs @ replicate n 0) @ drop (Suc i + n) (dest[i := c]))"
      by (simp add: store_def)
    moreover have "take (Suc i) (dest[i := c]) = take i dest @ [c]"
      using 3(3) by (simp add: take_Suc_conv_app_nth)
    moreover have "take (Suc n) (c_str (c # cs) @ replicate (Suc n) 0) = c # take n (c_str cs @ replicate n 0)"
      using False pad by (simp add: c_str_def del: replicate_Suc)
    ultimately show ?thesis by (simp del: replicate_Suc)
  qed
qed

lemma strcpy_safe_result:
  assumes "length output = n" "0 < n"
  shows "strcpy_safe n output src = Some (take (n - 1) (c_str src @ replicate n 0) @ [0])"
proof -
  have "strncpy output 0 src n = Some (take n (c_str src @ replicate n 0))"
    using assms by (simp add: strncpy_result)
  moreover have "length (take n (c_str src @ replicate n 0)) = n" by simp
  moreover have "(take n (c_str src @ replicate n 0))[n - 1 := 0] = take (n - 1) (c_str src @ replicate n 0) @ [0]"
  proof -
    obtain m where m: "n = Suc m" using assms(2) by (cases n) auto
    let ?xs = "c_str src @ replicate n 0"
    have "m < length ?xs" using m by simp
    then have "take (Suc m) ?xs = take m ?xs @ [?xs ! m]" by (rule take_Suc_conv_app_nth)
    moreover have "length (take m ?xs) = m" using m by simp
    ultimately have "(take (Suc m) ?xs)[m := 0] = take m ?xs @ [0]"
      by (simp only: update_last)
    then show ?thesis using m by simp
  qed
  ultimately show ?thesis using assms(2) by (simp add: strcpy_safe_def store_def)
qed

lemma strcpy_safe_copied:
  assumes "length output = n" "0 < n"
  shows "\<exists>a. strcpy_safe n output src = Some a \<and> copied_truncated n src a"
proof -
  let ?a = "take (n - 1) (c_str src @ replicate n 0) @ [0]"
  have len: "length (take (n - 1) (c_str src @ replicate n 0)) = n - 1" by simp
  have "strcpy_safe n output src = Some ?a" using assms by (rule strcpy_safe_result)
  moreover have "length ?a = n" using assms(2) by simp
  moreover have "?a ! (n - 1) = 0"
    using nth_append_length [of "take (n - 1) (c_str src @ replicate n 0)" 0 "[]"]
    by (simp only: len)
  moreover have "take (n - 1) ?a = take (n - 1) (c_str src @ replicate n 0)"
    using len by simp
  ultimately show ?thesis unfolding copied_truncated_def by blast
qed

text \<open>
  C7. For every source string, of any length, \<open>SetAuthor\<close>, \<open>SetGameName\<close> and
  \<open>SetEmulatorVersion\<close> succeed: no write leaves the array. The field keeps its capacity,
  holds the source truncated to one character less than the capacity, and ends in a zero
  byte; the other fields of the header are as before.
\<close>

theorem C7_text_setters_truncate_and_terminate:
  assumes "wf_decls d" and "wf_header d h"
  shows "(\<exists>a. SetAuthor d h src = Some (h\<lparr>author := a\<rparr>) \<and> copied_truncated (authorCap d) src a) \<and>
         (\<exists>a. SetGameName d h src = Some (h\<lparr>gameName := a\<rparr>) \<and> copied_truncated (gameNameCap d) src a) \<and>
         (\<exists>a. SetEmulatorVersion d h src = Some (h\<lparr>emu := a\<rparr>) \<and> copied_truncated (emuCap d) src a)"
proof -
  have "\<exists>a. strcpy_safe (authorCap d) (author h) src = Some a \<and> copied_truncated (authorCap d) src a"
    using assms by (intro strcpy_safe_copied) (simp_all add: wf_decls_def wf_header_def)
  moreover have "\<exists>a. strcpy_safe (gameNameCap d) (gameName h) src = Some a \<and> copied_truncated (gameNameCap d) src a"
    using assms by (intro strcpy_safe_copied) (simp_all add: wf_decls_def wf_header_def)
  moreover have "\<exists>a. strcpy_safe (emuCap d) (emu h) src = Some a \<and> copied_truncated (emuCap d) src a"
    using assms by (intro strcpy_safe_copied) (simp_all add: wf_decls_def wf_header_def)
  ultimately show ?thesis
    by (auto simp: SetAuthor_def SetGameName_def SetEmulatorVersion_def)
qed

lemma wf_pcsx2_decls: "wf_decls pcsx2_decls"
  by (simp add: wf_decls_def pcsx2_decls_def sizeof_header_def)

lemma wf_loaded_header: "wf_header pcsx2_decls loaded_header"
  by (simp add: wf_header_def pcsx2_decls_def loaded_header_def)

theorem C7_text_setters_witness:
  "wf_decls pcsx2_decls \<and> wf_header pcsx2_decls loaded_header \<and>
   (\<exists>a. SetAuthor pcsx2_decls loaded_header (replicate 300 65) = Some (loaded_header\<lparr>author := a\<rparr>) \<and>
        copied_truncated 255 (replicate 300 65) a) \<and>
   (\<exists>a. SetGameName pcsx2_decls loaded_header (replicate 300 65) = Some (loaded_header\<lparr>gameName := a\<rparr>) \<and>
        copied_truncated 255 (replicate 300 65) a) \<and>
   (\<exists>a. SetEmulatorVersion pcsx2_decls loaded_header (replicate 300 65) = Some (loaded_header\<lparr>emu := a\<rparr>) \<and>
        copied_truncated 50 (replicate 300 65) a)"
  using C7_text_setters_truncate_and_terminate [OF wf_pcsx2_decls wf_loaded_header, of "replicate 300 65"]
    wf_pcsx2_decls wf_loaded_header
  by (simp add: pcsx2_decls_def)

subsection \<open>Initialising the header and opening a new recording\<close>

lemma Init_result:
  assumes "wf_header d h"
  shows "Init d h = h\<lparr>author := replicate (authorCap d) 0, gameName := replicate (gameNameCap d) 0\<rparr>"
  using assms by (simp add: Init_def memset_def wf_header_def Let_def)

lemma open_new_permitted:
  assumes "permitted w path"
  shows "open' d w s path True =
           (True, w\<lparr>files := (files w)(path \<mapsto> [])\<rparr>,
            s\<lparr>recordingFile := Some (fresh_stream path), filename := path,
              totalFrames := 0, undoCount := 0, header := Init d (header s)\<rparr>)"
  using assms by (simp add: open'_def wxFopen_wb_def)

lemma open_new_refused:
  assumes "\<not> permitted w path"
  shows "open' d w s path True = (False, consoleLog OpenFailed w, s\<lparr>recordingFile := None\<rparr>)"
  using assms by (simp add: open'_def wxFopen_wb_def)

text \<open>
  C4, as the code has it. \<open>Init\<close> fills \<open>author\<close> and \<open>gameName\<close> with zeros, so that
  both are null-terminated, and leaves the format version and the emulator identity as
  they were; the arrays keep their capacities. A successful \<open>OpenNew\<close> resets the header
  in exactly this way.
\<close>

theorem C4_Init_clears_author_and_title:
  assumes "wf_header d h"
  shows "author (Init d h) = replicate (authorCap d) 0 \<and>
         gameName (Init d h) = replicate (gameNameCap d) 0 \<and>
         version (Init d h) = version h \<and> emu (Init d h) = emu h \<and>
         wf_header d (Init d h) \<and>
         (permitted w path \<longrightarrow>
            fst (OpenNew d w s path b) \<and>
            header (snd (snd (OpenNew d w s path b))) = Init d (header s))"
  using assms
  by (simp add: Init_result wf_header_def OpenNew_def open_new_permitted)

theorem C4_Init_witness:
  "wf_header pcsx2_decls loaded_header \<and> permitted empty_world ''a.p2m2'' \<and>
   author (Init pcsx2_decls loaded_header) = replicate 255 0 \<and>
   gameName (Init pcsx2_decls loaded_header) = replicate 255 0 \<and>
   version (Init pcsx2_decls loaded_header) = 1 \<and>
   emu (Init pcsx2_decls loaded_header) = [80, 67, 83, 88, 50] @ replicate 45 0 \<and>
   fst (OpenNew pcsx2_decls empty_world closed_store ''a.p2m2'' True) \<and>
   header (snd (snd (OpenNew pcsx2_decls empty_world closed_store ''a.p2m2'' True))) =
     Init pcsx2_decls loaded_header"
  using C4_Init_clears_author_and_title [OF wf_loaded_header, of empty_world "''a.p2m2''" closed_store True]
    wf_loaded_header
  by (simp add: pcsx2_decls_def loaded_header_def empty_world_def closed_store_def)

text \<open>
  After \<open>Init\<close> on a loaded header the version is still 1 and the emulator identity
  still starts with the character it had: not every field is zeroed.
\<close>

theorem C4_Init_counterexample:
  "version (Init pcsx2_decls loaded_header) \<noteq> 0 \<and>
   emu (Init pcsx2_decls loaded_header) ! 0 \<noteq> 0"
  by (simp add: Init_def Let_def loaded_header_def)

text \<open>
  C5, as the code has it. When the path cannot be opened for writing, \<open>OpenNew\<close> returns
  failure and logs it; the header, both counters, the snapshot flag and the stored path
  are as before, and the file handle is null (as before only if the store was closed).
\<close>

theorem C5_OpenNew_refused:
  assumes "\<not> permitted w path"
  shows "OpenNew d w s path b = (False, consoleLog OpenFailed w, s\<lparr>recordingFile := None\<rparr>)"
  using assms by (simp add: OpenNew_def open_new_refused)

theorem C5_OpenNew_refused_witness:
  "\<not> permitted empty_world ''/x'' \<and>
   OpenNew pcsx2_decls empty_world open_store ''/x'' True =
     (False, consoleLog OpenFailed empty_world, open_store\<lparr>recordingFile := None\<rparr>)"
  using C5_OpenNew_refused [of empty_world "''/x''" pcsx2_decls open_store True]
  by (simp add: empty_world_def)

text \<open>
  A store that is open loses its handle in a failed \<open>OpenNew\<close>: the handle field is not
  as it was before the call.
\<close>

theorem C5_OpenNew_counterexample:
  "\<not> permitted empty_world ''/x'' \<and>
   \<not> fst (OpenNew pcsx2_decls empty_world open_store ''/x'' True) \<and>
   recordingFile (snd (snd (OpenNew pcsx2_decls empty_world open_store ''/x'' True))) \<noteq>
     recordingFile open_store"
  by (simp add: OpenNew_def open'_def wxFopen_wb_def empty_world_def open_store_def closed_store_def)

subsection \<open>Bulk read on a closed store\<close>

text \<open>
  C10. On a closed store \<open>BulkReadPadData\<close> returns the empty mapping, and no error,
  whatever the range, the port and the other arguments are; the store and the world are
  unchanged.
\<close>

theorem C10_BulkReadPadData_closed:
  assumes "recordingFile s = None"
  shows "BulkReadPadData d P w s stack frameStart frameEnd port = Inr (Map.empty, w, s)"
  using assms by (simp add: BulkReadPadData_def)

theorem C10_BulkReadPadData_closed_witness:
  "recordingFile closed_store = None \<and>
   BulkReadPadData pcsx2_decls \<lparr>PadData_new = [], UpdateControllerData = (\<lambda>i b pd. pd @ [b])\<rparr>
     empty_world closed_store (\<lambda>i. 0) (- 5) 7 1 = Inr (Map.empty, empty_world, closed_store)"
  using C10_BulkReadPadData_closed [of closed_store pcsx2_decls
      "\<lparr>PadData_new = [], UpdateControllerData = (\<lambda>i b pd. pd @ [b])\<rparr>" empty_world "\<lambda>i. 0" "- 5" 7 1]
  by (simp add: closed_store_def)


subsection \<open>Streams\<close>

lemma disk_write_Nil [simp]: "disk_write w path p [] = w"
  by (simp add: disk_write_def)

lemma disk_write_room:
  assumes "p + length bs \<le> diskLimit w" and "bs \<noteq> []"
  shows "disk_write w path p bs = w\<lparr>files := (files w)(path \<mapsto> overwrite (file_bytes w path) p bs)\<rparr>"
proof -
  have "take (diskLimit w - p) bs = bs" using assms(1) by simp
  then show ?thesis using assms(2) by (cases bs) (simp_all add: disk_write_def)
qed

lemma disk_write_fields [simp]:
  "diskLimit (disk_write w path p bs) = diskLimit w"
  "permitted (disk_write w path p bs) = permitted w"
  "console (disk_write w path p bs) = console w"
  by (simp_all add: disk_write_def split: list.splits)

lemma disk_write_other_files: "q \<noteq> path \<Longrightarrow> files (disk_write w path p bs) q = files w q"
  by (simp add: disk_write_def split: list.splits)

lemma disk_write_exists: "files w path \<noteq> None \<Longrightarrow> files (disk_write w path p bs) path \<noteq> None"
  by (simp add: disk_write_def split: list.splits)

lemma overwrite_prefix_length: "length (take p old @ replicate (p - length old) (0 :: byte)) = p"
  by simp

lemma overwrite_read_back: "take (length bs) (drop p (overwrite old p bs)) = bs"
proof -
  let ?pre = "take p old @ replicate (p - length old) (0 :: byte)"
  have "overwrite old p bs = ?pre @ (bs @ drop (p + length bs) old)"
    by (simp add: overwrite_def)
  moreover have "length ?pre = p" by (rule overwrite_prefix_length)
  ultimately have "drop p (overwrite old p bs) = bs @ drop (p + length bs) old"
    by (metis append_eq_conv_conj)
  then show ?thesis by simp
qed

lemma overwrite_nth_outside:
  assumes "i < length old" and "i < p \<or> p + length bs \<le> i"
  shows "overwrite old p bs ! i = old ! i"
proof (cases "i < p")
  case True
  with assms(1) show ?thesis by (simp add: overwrite_def nth_append)
next
  case False
  with assms have a: "p + length bs \<le> i" "p \<le> length old" by simp_all
  define xs where "xs = take p old @ bs"
  have l: "length xs = p + length bs" using a by (simp add: xs_def)
  have "overwrite old p bs = xs @ drop (p + length bs) old"
    using a by (simp add: overwrite_def xs_def)
  then have "overwrite old p bs ! i = drop (p + length bs) old ! (i - (p + length bs))"
    using a l by (simp add: nth_append)
  also have "\<dots> = old ! i" using a assms(1) by simp
  finally show ?thesis .
qed

lemma overwrite_start: "overwrite ys 0 bs = bs @ drop (length bs) ys"
  by (simp add: overwrite_def)

lemma disk_write_read_back:
  assumes "p + length bs \<le> diskLimit w"
  shows "take (length bs) (drop p (file_bytes (disk_write w path p bs) path)) = bs"
proof (cases "bs = []")
  case True
  then show ?thesis by simp
next
  case False
  have "file_bytes (disk_write w path p bs) path = overwrite (file_bytes w path) p bs"
    by (simp add: disk_write_room [OF assms False] file_bytes_def)
  then show ?thesis by (simp only: overwrite_read_back)
qed

lemma fflush_empty: "wbuf f = [] \<Longrightarrow> fflush f w = (0, f, w)"
  by (cases f) (simp add: fflush_def)

lemma fflush_ok:
  assumes "flushes w f"
  shows "fflush f w = (0, f\<lparr>fpos := fpos f + length (wbuf f), wbuf := []\<rparr>, flushed w f)"
  using assms by (auto simp: fflush_def flushes_def flushed_def)

lemma fflush_fst: "fst (fflush f w) = 0 \<longleftrightarrow> flushes w f"
  by (auto simp: fflush_def flushes_def)

lemma flushed_empty [simp]: "wbuf f = [] \<Longrightarrow> flushed w f = w"
  by (simp add: flushed_def)

lemma flushes_empty [simp]: "wbuf f = [] \<Longrightarrow> flushes w f"
  by (simp add: flushes_def)

lemma flushed_fields [simp]:
  "diskLimit (flushed w f) = diskLimit w"
  "permitted (flushed w f) = permitted w"
  "console (flushed w f) = console w"
  by (simp_all add: flushed_def)

lemma fseek_ok:
  assumes "flushes w f" and "\<not> offset <s 0"
  shows "fseek f offset w = (0, f\<lparr>fpos := unat offset, wbuf := []\<rparr>, flushed w f)"
  using assms by (simp add: fseek_def fflush_ok)

lemma fseek_fst:
  "fst (fseek f offset w) = 0 \<longleftrightarrow> flushes w f \<and> \<not> offset <s 0"
proof -
  obtain r f1 w1 where ff: "fflush f w = (r, f1, w1)" by (cases "fflush f w") auto
  then have "r = 0 \<longleftrightarrow> flushes w f" using fflush_fst [of f w] by simp
  then show ?thesis using ff by (auto simp: fseek_def)
qed

lemma scast_of_nat_int:
  assumes "n < 2 ^ 31"
  shows "(scast (of_nat n :: 32 word) :: 64 word) = of_nat n"
proof -
  have "sint (of_nat n :: 32 word) = signed_take_bit 31 (int n)"
    using sint_sbintrunc' [where 'a = 32, of "int n"] by simp
  also have "\<dots> = int n"
    using assms by (intro signed_take_bit_int_eq_self) simp_all
  finally show ?thesis by (simp add: scast_eq)
qed

lemma fseek_const:
  assumes "flushes w f" and "n < 2 ^ 31"
  shows "fseek f (scast (of_nat n :: 32 word)) w = (0, f\<lparr>fpos := n, wbuf := []\<rparr>, flushed w f)"
proof -
  let ?o = "of_nat n :: 64 word"
  have u: "unat ?o = n" using assms(2) by (simp add: unat_of_nat)
  have "sint ?o = signed_take_bit 63 (int n)"
    using sint_sbintrunc' [where 'a = 64, of "int n"] by simp
  also have "\<dots> = int n"
    using assms(2) by (intro signed_take_bit_int_eq_self) simp_all
  finally have "\<not> ?o <s 0" by (simp add: word_sless_alt)
  from fseek_ok [OF assms(1) this] u show ?thesis
    by (simp add: scast_of_nat_int [OF assms(2)])
qed

lemma fseek_seekpointTotalFrames:
  assumes "wf_decls d" and "flushes w f"
  shows "fseek f (scast (seekpointTotalFrames d)) w = (0, f\<lparr>fpos := sizeof_header d, wbuf := []\<rparr>, flushed w f)"
proof -
  have "sizeof_header d < 2 ^ 31" using assms(1) by (simp add: wf_decls_def)
  with assms(2) show ?thesis unfolding seekpointTotalFrames_def by (rule fseek_const)
qed

lemma fseek_seekpointUndoCount:
  assumes "wf_decls d" and "flushes w f"
  shows "fseek f (scast (seekpointUndoCount d)) w = (0, f\<lparr>fpos := sizeof_header d + 4, wbuf := []\<rparr>, flushed w f)"
proof -
  have "sizeof_header d + 4 < 2 ^ 31" using assms(1) by (simp add: wf_decls_def)
  with assms(2) show ?thesis unfolding seekpointUndoCount_def by (rule fseek_const)
qed

subsection \<open>The counters\<close>

lemma length_le_encode [simp]: "length (le_encode n x) = n"
  by (induction n arbitrary: x) simp_all

lemma take_le_encode: "take n (le_encode (n + k) x) = le_encode n x"
  by (induction n arbitrary: x) simp_all

lemma take4_obj_long: "take 4 (obj_long v) = le_encode 4 (unat v)"
  using take_le_encode [of 4 4 "unat v"] by (simp add: obj_long_def)

lemma le_decode_encode: "le_decode (le_encode n x) = x mod 256 ^ n"
proof (induction n arbitrary: x)
  case 0
  show ?case by simp
next
  case (Suc n)
  have "unat (of_nat (x mod 256) :: byte) = x mod 256"
    by (simp add: unat_of_nat)
  then have "le_decode (le_encode (Suc n) x) = x mod 256 + 256 * ((x div 256) mod 256 ^ n)"
    by (simp add: Suc)
  also have "\<dots> = x mod 256 ^ Suc n"
    by (simp add: mod_mult2_eq)
  finally show ?case .
qed

lemma fwrite4: "fwrite (obj_long v) 4 (Suc 0) f = (Suc 0, f\<lparr>wbuf := wbuf f @ le_encode 4 (unat v)\<rparr>)"
  by (simp add: fwrite_def take4_obj_long)

lemma SetTotalFrames_noop:
  assumes "recordingFile s = None \<or> frame \<le>s totalFrames s"
  shows "SetTotalFrames d w s frame = (w, s)"
  using assms by (auto simp: SetTotalFrames_def split: option.splits)

lemma SetTotalFrames_open:
  assumes "wf_decls d" and "recordingFile s = Some f" and "totalFrames s <s frame"
    and "flushes w f"
  shows "SetTotalFrames d w s frame =
           (flushed w f,
            s\<lparr>totalFrames := frame,
              recordingFile := Some (f\<lparr>fpos := sizeof_header d, wbuf := le_encode 4 (unat frame)\<rparr>)\<rparr>)"
proof -
  have "\<not> frame \<le>s totalFrames s" using assms(3) by (simp add: signed.not_le)
  then show ?thesis
    using assms(2)
    by (simp add: SetTotalFrames_def fseek_seekpointTotalFrames [OF assms(1,4)] fwrite4)
qed

lemma totalFrames_SetTotalFrames:
  "totalFrames (snd (SetTotalFrames d w s frame)) =
     (if recordingFile s = None \<or> frame \<le>s totalFrames s then totalFrames s else frame)"
  by (auto simp: SetTotalFrames_def fwrite_def Let_def split: option.splits prod.splits)

lemma SetTotalFrames_never_decreases:
  "totalFrames s \<le>s totalFrames (snd (SetTotalFrames d w s frame))"
proof (cases "recordingFile s = None \<or> frame \<le>s totalFrames s")
  case True
  then show ?thesis by (simp add: totalFrames_SetTotalFrames)
next
  case False
  then have "totalFrames s <s frame" by (simp add: signed.not_le)
  then show ?thesis using False by (simp add: totalFrames_SetTotalFrames signed.less_imp_le)
qed

lemma IncrementUndoCount_open:
  assumes "wf_decls d" and "recordingFile s = Some f" and "flushes w f"
  shows "IncrementUndoCount d w s =
           (flushed w f,
            s\<lparr>undoCount := undoCount s + 1,
              recordingFile := Some (f\<lparr>fpos := sizeof_header d + 4,
                                       wbuf := le_encode 4 (unat (undoCount s + 1))\<rparr>)\<rparr>)"
  using assms(2)
  by (simp add: IncrementUndoCount_def fseek_seekpointUndoCount [OF assms(1,3)] fwrite4)

lemma Close_open:
  assumes "recordingFile s = Some f" and "flushes w f"
  shows "Close w s = (True, flushed w f, s\<lparr>recordingFile := None, filename := []\<rparr>)"
  using assms by (simp add: Close_def fclose_def fflush_ok)

lemma sizeof_header_pcsx2: "sizeof_header pcsx2_decls = 561"
  by (simp add: sizeof_header_def pcsx2_decls_def)

lemma le_encode_4_7: "le_encode 4 7 = [7, 0, 0, 0]"
  by code_simp


text \<open>
  C6 asks that \<open>SetTotalFrames\<close> with a greater argument persists the field. On the open
  store over the empty recording, \<open>SetTotalFrames\<close> with 7 makes the count 7 and leaves
  the four bytes in the buffer of the stream, since it does not flush: the world is the
  one before the call and the file is still empty. The bytes reach the file when the
  stream is next flushed, here by \<open>Close\<close>.
\<close>

theorem C6_SetTotalFrames_not_flushed:
  "SetTotalFrames pcsx2_decls one_file_world open_store 7 =
     (one_file_world,
      open_store\<lparr>totalFrames := 7,
                 recordingFile := Some \<lparr>fpath = ''a.p2m2'', fpos = 561, wbuf = [7, 0, 0, 0]\<rparr>\<rparr>) \<and>
   file_bytes one_file_world ''a.p2m2'' = [] \<and>
   file_bytes (fst (snd (Close one_file_world
       (snd (SetTotalFrames pcsx2_decls one_file_world open_store 7))))) ''a.p2m2'' =
     replicate 561 0 @ [7, 0, 0, 0]"
proof -
  let ?f = "fresh_stream ''a.p2m2''"
  let ?f1 = "\<lparr>fpath = ''a.p2m2'', fpos = 561, wbuf = [7, 0, 0, 0]\<rparr>"
  let ?s1 = "open_store\<lparr>totalFrames := 7, recordingFile := Some ?f1\<rparr>"
  have rf: "recordingFile open_store = Some ?f" by (simp add: open_store_def)
  have lt: "totalFrames open_store <s 7"
    by (simp add: open_store_def closed_store_def word_sless_alt)
  have fl: "flushes one_file_world ?f" by (simp add: fresh_stream_def)
  have wf: "wf_decls pcsx2_decls"
    by (simp add: wf_decls_def pcsx2_decls_def sizeof_header_def)
  have st: "SetTotalFrames pcsx2_decls one_file_world open_store 7 = (one_file_world, ?s1)"
    using SetTotalFrames_open [OF wf rf lt fl]
    by (simp add: sizeof_header_pcsx2 le_encode_4_7 fresh_stream_def)
  have e: "file_bytes one_file_world ''a.p2m2'' = []"
    by (simp add: file_bytes_def one_file_world_def)
  have "flushes one_file_world ?f1"
    by (simp add: flushes_def one_file_world_def empty_world_def)
  then have "Close one_file_world ?s1 =
      (True, flushed one_file_world ?f1, ?s1\<lparr>recordingFile := None, filename := []\<rparr>)"
    by (intro Close_open) simp
  moreover have "flushed one_file_world ?f1 =
      one_file_world\<lparr>files := (files one_file_world)(''a.p2m2'' \<mapsto> overwrite [] 561 [7, 0, 0, 0])\<rparr>"
    using disk_write_room [of 561 "[7, 0, 0, 0]" one_file_world "''a.p2m2''"] e
    by (simp add: flushed_def one_file_world_def empty_world_def)
  ultimately have "file_bytes (fst (snd (Close one_file_world ?s1))) ''a.p2m2'' = overwrite [] 561 [7, 0, 0, 0]"
    by (simp add: file_bytes_def)
  then show ?thesis using st e by (simp add: overwrite_def)
qed









subsection \<open>Writing and reading the header block\<close>

lemma length_obj_header: "wf_header d h \<Longrightarrow> length (obj_header h) = sizeof_header d"
  by (simp add: wf_header_def obj_header_def sizeof_header_def)

lemma header_obj_obj_header:
  assumes "wf_header d h"
  shows "header_obj d h0 (obj_header h @ junk) = h"
  using assms by (simp add: header_obj_def obj_header_def wf_header_def u8_obj_def)

lemma length_header_block: "wf_header d (header s) \<Longrightarrow> length (header_block s) = sizeof_header d + 9"
  by (simp add: header_block_def length_obj_header obj_bool_def)

lemma contents_same_path: "fpath g = fpath f \<Longrightarrow> contents w g = contents w f"
  by (simp add: contents_def)

lemma rewind_ok:
  assumes "flushes w f"
  shows "rewind f w = (f\<lparr>fpos := 0, wbuf := []\<rparr>, flushed w f)"
proof -
  have "\<not> (0 :: long) <s 0" by simp
  from fseek_ok [OF assms this] show ?thesis by (simp add: rewind_def)
qed

lemma WriteHeader_ok:
  assumes "wf_header d (header s)" and "recordingFile s = Some f" and "flushes w f"
    and "sizeof_header d + 9 \<le> diskLimit w"
  shows "WriteHeader d w s =
           (True, disk_write (flushed w f) (fpath f) 0 (header_block s),
            s\<lparr>recordingFile := Some (f\<lparr>fpos := sizeof_header d + 9, wbuf := []\<rparr>)\<rparr>)"
proof -
  let ?n = "sizeof_header d"
  let ?f4 = "f\<lparr>fpos := 0, wbuf := header_block s\<rparr>"
  have tk: "take ?n (obj_header (header s)) = obj_header (header s)"
    using length_obj_header [OF assms(1)] by simp
  have tb: "take (Suc 0) (obj_bool b) = obj_bool b" for b by (simp add: obj_bool_def)
  have fl: "flushes (flushed w f) ?f4"
    using assms(4) length_header_block [OF assms(1)] by (simp add: flushes_def)
  have ff: "fflush ?f4 (flushed w f) =
              (0, f\<lparr>fpos := ?n + 9, wbuf := []\<rparr>, disk_write (flushed w f) (fpath f) 0 (header_block s))"
    using fflush_ok [OF fl] length_header_block [OF assms(1)] by (simp add: flushed_def)
  show ?thesis
    using assms(2) ff
    by (simp add: WriteHeader_def rewind_ok [OF assms(3)] fwrite_def tk tb take4_obj_long header_block_def)
qed

lemma WriteHeader_contents:
  assumes "wf_header d (header s)" and "recordingFile s = Some f" and "flushes w f"
    and "sizeof_header d + 9 \<le> diskLimit w"
  shows "file_bytes (fst (snd (WriteHeader d w s))) (fpath f) =
           header_block s @ drop (sizeof_header d + 9) (file_bytes (flushed w f) (fpath f))"
    and "permitted (fst (snd (WriteHeader d w s))) = permitted w"
    and "fst (WriteHeader d w s)"
proof -
  have ne: "header_block s \<noteq> []" by (simp add: header_block_def obj_header_def)
  have room: "0 + length (header_block s) \<le> diskLimit (flushed w f)"
    using assms(4) length_header_block [OF assms(1)] by simp
  show "file_bytes (fst (snd (WriteHeader d w s))) (fpath f) =
           header_block s @ drop (sizeof_header d + 9) (file_bytes (flushed w f) (fpath f))"
    using length_header_block [OF assms(1)]
    by (simp add: WriteHeader_ok [OF assms] disk_write_room [OF room ne] file_bytes_def overwrite_start)
  show "permitted (fst (snd (WriteHeader d w s))) = permitted w"
    by (simp add: WriteHeader_ok [OF assms])
  show "fst (WriteHeader d w s)" by (simp add: WriteHeader_ok [OF assms])
qed

lemma fread_ok:
  assumes "wbuf f = []" and "fpos f + sz * cnt \<le> length (contents w f)" and "0 < sz"
  shows "fread buf sz cnt f w =
           (cnt, take (sz * cnt) (drop (fpos f) (contents w f)) @ drop (sz * cnt) buf,
            f\<lparr>fpos := fpos f + sz * cnt\<rparr>, w)"
proof -
  have "length (take (sz * cnt) (drop (fpos f) (contents w f))) = sz * cnt"
    using assms(2) by simp
  then show ?thesis using assms(3) by (simp add: fread_def fflush_empty [OF assms(1)] Let_def)
qed

lemma fread_short:
  assumes "wbuf f = []" and "length (contents w f) < fpos f + sz" and "0 < sz"
  shows "fst (fread buf sz (Suc 0) f w) = 0"
proof -
  have "length (take sz (drop (fpos f) (contents w f))) < sz"
    using assms(2,3) by auto
  then show ?thesis by (simp add: fread_def fflush_empty [OF assms(1)] Let_def)
qed

lemma verify_ok:
  assumes "wf_decls d" and "recordingFile t = Some g" and "flushes w g"
    and "sizeof_header d + 9 \<le> length (contents (flushed w g) g)"
  shows "verifyRecordingFileHeader d w t =
           (if version (header (loaded_store d (contents (flushed w g) g) t g)) \<noteq> 1
            then (False,
                  consoleLog (UnsupportedVersion (version (header (loaded_store d (contents (flushed w g) g) t g))))
                    (flushed w g),
                  loaded_store d (contents (flushed w g) g) t g)
            else (True, flushed w g, loaded_store d (contents (flushed w g) g) t g))"
proof -
  let ?n = "sizeof_header d"
  let ?w = "flushed w g"
  let ?c = "contents ?w g"
  have n0: "0 < ?n" by (simp add: sizeof_header_def)
  define f0 where "f0 = g\<lparr>fpos := 0, wbuf := []\<rparr>"
  define f1 where "f1 = g\<lparr>fpos := ?n, wbuf := []\<rparr>"
  define f2 where "f2 = g\<lparr>fpos := ?n + 4, wbuf := []\<rparr>"
  define f3 where "f3 = g\<lparr>fpos := ?n + 8, wbuf := []\<rparr>"
  define f4 where "f4 = g\<lparr>fpos := ?n + 9, wbuf := []\<rparr>"
  have c: "contents ?w f0 = ?c" "contents ?w f1 = ?c" "contents ?w f2 = ?c" "contents ?w f3 = ?c"
    by (simp_all add: f0_def f1_def f2_def f3_def contents_def)
  have e: "wbuf f0 = []" "wbuf f1 = []" "wbuf f2 = []" "wbuf f3 = []"
    by (simp_all add: f0_def f1_def f2_def f3_def)
  have rw: "rewind g w = (f0, ?w)" by (simp add: rewind_ok [OF assms(3)] f0_def)
  have r1: "fread buf ?n 1 f0 ?w = (1, take ?n ?c @ drop ?n buf, f1, ?w)" for buf
  proof -
    have "fpos f0 + ?n * 1 \<le> length (contents ?w f0)" using assms(4) c by (simp add: f0_def)
    from fread_ok [OF e(1) this n0, of buf] show ?thesis
      using c by (simp add: f1_def f0_def)
  qed
  have r2: "fread buf 4 1 f1 ?w = (1, take 4 (drop ?n ?c) @ drop 4 buf, f2, ?w)" for buf
  proof -
    have "fpos f1 + 4 * 1 \<le> length (contents ?w f1)" using assms(4) c by (simp add: f1_def)
    from fread_ok [OF e(2) this, of buf] show ?thesis
      using c by (simp add: f1_def f2_def)
  qed
  have r3: "fread buf 4 1 f2 ?w = (1, take 4 (drop (?n + 4) ?c) @ drop 4 buf, f3, ?w)" for buf
  proof -
    have "fpos f2 + 4 * 1 \<le> length (contents ?w f2)" using assms(4) c by (simp add: f2_def)
    from fread_ok [OF e(3) this, of buf] show ?thesis
      using c by (simp add: f2_def f3_def)
  qed
  have r4: "fread buf 1 1 f3 ?w = (1, take 1 (drop (?n + 8) ?c) @ drop 1 buf, f4, ?w)" for buf
  proof -
    have "fpos f3 + 1 * 1 \<le> length (contents ?w f3)" using assms(4) c by (simp add: f3_def)
    from fread_ok [OF e(4) this, of buf] show ?thesis
      using c by (simp add: f3_def f4_def)
  qed
  show ?thesis
    using assms(2) r1 r2 r3 r4
    by (simp add: verifyRecordingFileHeader_def rw loaded_store_def f4_def)
qed



lemma le_decode_append: "le_decode (as @ bs) = le_decode as + 256 ^ length as * le_decode bs"
  by (induction as) (simp_all add: algebra_simps)

lemma drop_le_encode: "drop n (le_encode (n + k) x) = le_encode k (x div 256 ^ n)"
proof (induction n arbitrary: x)
  case 0
  show ?case by simp
next
  case (Suc n)
  have "drop (Suc n) (le_encode (Suc n + k) x) = drop n (le_encode (n + k) (x div 256))" by simp
  also have "\<dots> = le_encode k (x div 256 div 256 ^ n)" by (rule Suc)
  also have "x div 256 div 256 ^ n = x div 256 ^ Suc n" by (simp add: div_mult2_eq)
  finally show ?case .
qed

lemma le_decode_bound: "le_decode bs < 256 ^ length bs"
proof (induction bs)
  case Nil
  show ?case by simp
next
  case (Cons b bs)
  have "unat b < 256" using unsigned_less [of b] by simp
  moreover have "le_decode bs + 1 \<le> 256 ^ length bs" using Cons by simp
  then have "256 * (le_decode bs + 1) \<le> 256 * 256 ^ length bs" by (rule mult_le_mono2)
  ultimately show ?case by simp
qed

lemma unat_of_nat_long: "N < 2 ^ 64 \<Longrightarrow> unat (of_nat N :: long) = N"
  by (simp add: unat_of_nat)

lemma reload_long:
  assumes "length bs = 4"
  shows "unat (long_obj (bs @ drop 4 (obj_long old))) = le_decode bs + 2 ^ 32 * (unat old div 2 ^ 32)"
proof -
  have old: "unat old < 2 ^ 64" using unsigned_less [of old] by simp
  have d: "drop 4 (obj_long old) = le_encode 4 (unat old div 256 ^ 4)"
    using drop_le_encode [of 4 4 "unat old"] by (simp add: obj_long_def)
  have "unat old div 2 ^ 32 < 2 ^ 32" using old by (simp add: less_mult_imp_div_less)
  then have hi: "le_decode (le_encode 4 (unat old div 256 ^ 4)) = unat old div 2 ^ 32"
    by (simp add: le_decode_encode)
  have lo: "le_decode bs < 2 ^ 32" using le_decode_bound [of bs] assms by simp
  have v: "le_decode (bs @ drop 4 (obj_long old)) = le_decode bs + 2 ^ 32 * (unat old div 2 ^ 32)"
    using assms hi by (simp add: le_decode_append d)
  have "unat old div 2 ^ 32 + 1 \<le> 2 ^ 32" using \<open>unat old div 2 ^ 32 < 2 ^ 32\<close> by simp
  then have "2 ^ 32 * (unat old div 2 ^ 32 + 1) \<le> (2 ^ 32 * 2 ^ 32 :: nat)" by (rule mult_le_mono2)
  then have "le_decode bs + 2 ^ 32 * (unat old div 2 ^ 32) < 2 ^ 64" using lo by simp
  then have "unat (of_nat (le_decode bs + 2 ^ 32 * (unat old div 2 ^ 32)) :: long) =
               le_decode bs + 2 ^ 32 * (unat old div 2 ^ 32)"
    by (rule unat_of_nat_long)
  then show ?thesis by (simp only: long_obj_def v)
qed

lemma loaded_store_totalFrames:
  assumes "sizeof_header d + 4 \<le> length c"
  shows "unat (totalFrames (loaded_store d c t g)) =
           le_decode (take 4 (drop (sizeof_header d) c)) + 2 ^ 32 * (unat (totalFrames t) div 2 ^ 32)"
proof -
  have "length (take 4 (drop (sizeof_header d) c)) = 4" using assms by simp
  then show ?thesis by (simp add: loaded_store_def reload_long)
qed

lemma loaded_store_undoCount:
  assumes "sizeof_header d + 8 \<le> length c"
  shows "unat (undoCount (loaded_store d c t g)) =
           le_decode (take 4 (drop (sizeof_header d + 4) c)) + 2 ^ 32 * (unat (undoCount t) div 2 ^ 32)"
proof -
  have "length (take 4 (drop (sizeof_header d + 4) c)) = 4" using assms by simp
  then show ?thesis by (simp add: loaded_store_def reload_long)
qed


lemma header_block_parts:
  assumes "wf_header d (header s)"
  shows "take (sizeof_header d) (header_block s @ rest) = obj_header (header s)"
    and "take 4 (drop (sizeof_header d) (header_block s @ rest)) = le_encode 4 (unat (totalFrames s))"
    and "take 4 (drop (sizeof_header d + 4) (header_block s @ rest)) = le_encode 4 (unat (undoCount s))"
    and "take 1 (drop (sizeof_header d + 8) (header_block s @ rest)) = obj_bool (fromSavestate (savestate s))"
  using length_obj_header [OF assms]
  by (simp_all add: header_block_def obj_bool_def)

lemma loaded_store_header_block:
  assumes "wf_header d (header s)"
  shows "header (loaded_store d (header_block s @ rest) t g) = header s"
    and "fromSavestate (savestate (loaded_store d (header_block s @ rest) t g)) = fromSavestate (savestate s)"
    and "unat (totalFrames (loaded_store d (header_block s @ rest) t g)) =
           unat (totalFrames s) mod 2 ^ 32 + 2 ^ 32 * (unat (totalFrames t) div 2 ^ 32)"
    and "unat (undoCount (loaded_store d (header_block s @ rest) t g)) =
           unat (undoCount s) mod 2 ^ 32 + 2 ^ 32 * (unat (undoCount t) div 2 ^ 32)"
proof -
  let ?c = "header_block s @ rest"
  have len: "sizeof_header d + 9 \<le> length ?c"
    using length_header_block [OF assms] by simp
  show "header (loaded_store d ?c t g) = header s"
    by (simp only: loaded_store_def header_block_parts [OF assms])
       (simp add: header_obj_obj_header [OF assms])
  show "fromSavestate (savestate (loaded_store d ?c t g)) = fromSavestate (savestate s)"
    by (simp only: loaded_store_def header_block_parts [OF assms])
       (simp add: obj_bool_def bool_obj_def)
  show "unat (totalFrames (loaded_store d ?c t g)) =
           unat (totalFrames s) mod 2 ^ 32 + 2 ^ 32 * (unat (totalFrames t) div 2 ^ 32)"
    using len by (simp only: loaded_store_totalFrames header_block_parts [OF assms] le_decode_encode) simp
  show "unat (undoCount (loaded_store d ?c t g)) =
           unat (undoCount s) mod 2 ^ 32 + 2 ^ 32 * (unat (undoCount t) div 2 ^ 32)"
    using len by (simp only: loaded_store_undoCount header_block_parts [OF assms] le_decode_encode) simp
qed


lemma loaded_store_version:
  assumes "wf_decls d" and "sizeof_header d + 9 \<le> length c"
  shows "version (header (loaded_store d c t g)) = c ! 0"
proof -
  have n0: "0 < sizeof_header d" by (simp add: sizeof_header_def)
  obtain b bs where c: "c = b # bs" using assms(2) n0 by (cases c) auto
  obtain m where m: "sizeof_header d = Suc m" using n0 by (cases "sizeof_header d") auto
  show ?thesis by (simp add: loaded_store_def header_obj_def u8_obj_def c m)
qed


lemma verify_snd:
  assumes "wf_decls d" and "recordingFile t = Some g" and "flushes w g"
    and "sizeof_header d + 9 \<le> length (contents (flushed w g) g)"
  shows "snd (snd (verifyRecordingFileHeader d w t)) = loaded_store d (contents (flushed w g) g) t g"
  by (simp add: verify_ok [OF assms])



lemma fresh_stream_fields [simp]:
  "fpath (fresh_stream path) = path" "fpos (fresh_stream path) = 0" "wbuf (fresh_stream path) = []"
  by (simp_all add: fresh_stream_def)


lemma OpenExisting_file:
  assumes "permitted w path" and "files w path = Some c"
  shows "OpenExisting d w s path =
           (case verifyRecordingFileHeader d w (s\<lparr>recordingFile := Some (fresh_stream path)\<rparr>) of
              (ok, w2, s2) \<Rightarrow>
                if ok then (True, w2, s2\<lparr>filename := path\<rparr>)
                else (False, consoleLog HeaderInvalid (fst (snd (Close w2 s2))), snd (snd (Close w2 s2))))"
  using assms by (simp add: OpenExisting_def open'_def wxFopen_rb_def split: prod.splits)





subsection \<open>Opening an existing recording\<close>


lemma wf_open_store: "wf_header pcsx2_decls (header open_store)"
  by (simp add: open_store_def closed_store_def wf_loaded_header)

lemma open_store_stream:
  "recordingFile open_store = Some (fresh_stream ''a.p2m2'')"
  by (simp add: open_store_def)

lemma one_file_world_fields:
  "diskLimit one_file_world = diskLimit empty_world" "permitted one_file_world ''a.p2m2''"
  "files one_file_world ''a.p2m2'' = Some []" "file_bytes one_file_world ''a.p2m2'' = []"
  by (simp_all add: one_file_world_def empty_world_def file_bytes_def)

lemma room_one_file_world: "sizeof_header pcsx2_decls + 9 \<le> diskLimit one_file_world"
  by (simp add: sizeof_header_pcsx2 one_file_world_def empty_world_def)

lemma written_world_files:
  "files written_world ''a.p2m2'' = Some (header_block open_store)"
  "permitted written_world = permitted one_file_world"
  "diskLimit written_world = diskLimit one_file_world"
proof -
  have fl: "flushes one_file_world (fresh_stream ''a.p2m2'')" by simp
  note ok = WriteHeader_ok [OF wf_open_store open_store_stream fl room_one_file_world]
  have ne: "header_block open_store \<noteq> []" by (simp add: header_block_def obj_header_def)
  have room: "0 + length (header_block open_store) \<le> diskLimit one_file_world"
    using room_one_file_world length_header_block [OF wf_open_store] by simp
  show "files written_world ''a.p2m2'' = Some (header_block open_store)"
    by (simp add: written_world_def ok disk_write_room [OF room ne] overwrite_start one_file_world_fields)
  show "permitted written_world = permitted one_file_world"
    by (simp add: written_world_def ok)
  show "diskLimit written_world = diskLimit one_file_world"
    by (simp add: written_world_def ok)
qed

lemma header_block_open_store:
  "length (header_block open_store) = 570" "header_block open_store ! 0 = 1"
  using length_header_block [OF wf_open_store]
  by (simp_all add: sizeof_header_pcsx2 header_block_def obj_header_def open_store_def closed_store_def loaded_header_def)


subsection \<open>Counters wider than the four bytes the file keeps\<close>

lemma OpenExisting_ok:
  assumes "wf_decls d" and "permitted w path" and "files w path = Some c"
    and "sizeof_header d + 9 \<le> length c" and "c ! 0 = 1"
  shows "OpenExisting d w t path =
           (True, w,
            (loaded_store d c (t\<lparr>recordingFile := Some (fresh_stream path)\<rparr>) (fresh_stream path))
              \<lparr>filename := path\<rparr>)"
proof -
  let ?g = "fresh_stream path"
  let ?t1 = "t\<lparr>recordingFile := Some ?g\<rparr>"
  have rf: "recordingFile ?t1 = Some ?g" by simp
  have fl: "flushes w ?g" by simp
  have fw: "flushed w ?g = w" by simp
  have cc: "contents w ?g = c" using assms(3) by (simp add: contents_def file_bytes_def)
  have len: "sizeof_header d + 9 \<le> length (contents (flushed w ?g) ?g)"
    using assms(4) by (simp only: fw cc)
  have "version (header (loaded_store d c ?t1 ?g)) = 1"
    using loaded_store_version [OF assms(1,4), of ?t1 ?g] assms(5) by simp
  then have "verifyRecordingFileHeader d w ?t1 = (True, w, loaded_store d c ?t1 ?g)"
    using verify_ok [OF assms(1) rf fl len, unfolded fw cc] by simp
  then show ?thesis
    using assms(2,3) by (simp add: OpenExisting_file)
qed

lemma reopened_differs:
  assumes "unat (x :: long) = a mod 2 ^ 32 + 2 ^ 32 * (b div 2 ^ 32)"
    and "b < 2 ^ 32" and "2 ^ 32 \<le> a" and "unat y = a"
  shows "x \<noteq> y"
proof
  assume "x = y"
  then have "a = a mod 2 ^ 32" using assms(1,2,4) by simp
  moreover have "a mod 2 ^ 32 < (2 ^ 32 :: nat)" by simp
  ultimately show False using assms(3) by linarith
qed

lemma le_encode_nonempty: "0 < n \<Longrightarrow> le_encode n x \<noteq> []"
  by (cases n) simp_all

lemma closed_after_write4:
  assumes "recordingFile s' = Some (f\<lparr>fpos := p, wbuf := le_encode 4 v\<rparr>)" and "p + 4 \<le> diskLimit w'"
  shows "take 4 (drop p (file_bytes (fst (snd (Close w' s'))) (fpath f))) = le_encode 4 v"
proof -
  let ?f = "f\<lparr>fpos := p, wbuf := le_encode 4 v\<rparr>"
  have fl: "flushes w' ?f" using assms(2) by (simp add: flushes_def)
  have room: "p + length (le_encode 4 v) \<le> diskLimit w'" using assms(2) by simp
  have "fst (snd (Close w' s')) = disk_write w' (fpath f) p (le_encode 4 v)"
    by (simp add: Close_open [OF assms(1) fl] flushed_def)
  then show ?thesis using disk_write_read_back [OF room, of "fpath f"] by simp
qed

text \<open>
  C9, as the code has it. Every path writes a counter as the four low-order bytes of its
  value: \<open>SetTotalFrames\<close> and \<open>IncrementUndoCount\<close> hand exactly these four bytes to
  the stream at the offset of the field, where the file has them once the stream is
  closed with room on the disk, and \<open>WriteHeader\<close> puts them into the file; four bytes
  carry the value modulo \<open>2^32\<close>. Validation reads four bytes over the low-order half of
  the 8-byte counter and leaves its upper half as it was. So a store that opens what
  another has written gets each counter modulo \<open>2^32\<close> in the lower half, under the
  upper half it had before; if that upper half is zero, as in a new store, a counter of
  \<open>2^32\<close> or more does not come back.
\<close>

theorem C9_counters_keep_four_bytes:
  assumes "wf_decls d" and "recordingFile s = Some f" and "flushes w f"
  shows "(totalFrames s <s frame \<longrightarrow>
            recordingFile (snd (SetTotalFrames d w s frame)) =
              Some (f\<lparr>fpos := sizeof_header d, wbuf := le_encode 4 (unat frame)\<rparr>) \<and>
            (sizeof_header d + 4 \<le> diskLimit w \<longrightarrow>
               take 4 (drop (sizeof_header d)
                  (file_bytes (fst (snd (Close (fst (SetTotalFrames d w s frame))
                                               (snd (SetTotalFrames d w s frame))))) (fpath f)))
                 = le_encode 4 (unat frame))) \<and>
         recordingFile (snd (IncrementUndoCount d w s)) =
           Some (f\<lparr>fpos := sizeof_header d + 4, wbuf := le_encode 4 (unat (undoCount s + 1))\<rparr>) \<and>
         (sizeof_header d + 8 \<le> diskLimit w \<longrightarrow>
            take 4 (drop (sizeof_header d + 4)
               (file_bytes (fst (snd (Close (fst (IncrementUndoCount d w s))
                                            (snd (IncrementUndoCount d w s))))) (fpath f)))
              = le_encode 4 (unat (undoCount s + 1))) \<and>
         (wf_header d (header s) \<and> sizeof_header d + 9 \<le> diskLimit w \<longrightarrow>
            take 4 (drop (sizeof_header d) (file_bytes (fst (snd (WriteHeader d w s))) (fpath f)))
              = le_encode 4 (unat (totalFrames s)) \<and>
            take 4 (drop (sizeof_header d + 4) (file_bytes (fst (snd (WriteHeader d w s))) (fpath f)))
              = le_encode 4 (unat (undoCount s))) \<and>
         le_decode (le_encode 4 x) = x mod 2 ^ 32 \<and>
         (sizeof_header d + 9 \<le> length (contents (flushed w f) f) \<longrightarrow>
            unat (totalFrames (snd (snd (verifyRecordingFileHeader d w s)))) =
              le_decode (take 4 (drop (sizeof_header d) (contents (flushed w f) f)))
                + 2 ^ 32 * (unat (totalFrames s) div 2 ^ 32) \<and>
            unat (undoCount (snd (snd (verifyRecordingFileHeader d w s)))) =
              le_decode (take 4 (drop (sizeof_header d + 4) (contents (flushed w f) f)))
                + 2 ^ 32 * (unat (undoCount s) div 2 ^ 32)) \<and>
         (wf_header d (header s) \<and> version (header s) = 1 \<and> sizeof_header d + 9 \<le> diskLimit w \<and>
          permitted w (fpath f) \<longrightarrow>
            fst (OpenExisting d (fst (snd (WriteHeader d w s))) t (fpath f)) \<and>
            unat (totalFrames (snd (snd (OpenExisting d (fst (snd (WriteHeader d w s))) t (fpath f))))) =
              unat (totalFrames s) mod 2 ^ 32 + 2 ^ 32 * (unat (totalFrames t) div 2 ^ 32) \<and>
            unat (undoCount (snd (snd (OpenExisting d (fst (snd (WriteHeader d w s))) t (fpath f))))) =
              unat (undoCount s) mod 2 ^ 32 + 2 ^ 32 * (unat (undoCount t) div 2 ^ 32) \<and>
            (unat (totalFrames t) < 2 ^ 32 \<and> 2 ^ 32 \<le> unat (totalFrames s) \<longrightarrow>
               totalFrames (snd (snd (OpenExisting d (fst (snd (WriteHeader d w s))) t (fpath f))))
                 \<noteq> totalFrames s) \<and>
            (unat (undoCount t) < 2 ^ 32 \<and> 2 ^ 32 \<le> unat (undoCount s) \<longrightarrow>
               undoCount (snd (snd (OpenExisting d (fst (snd (WriteHeader d w s))) t (fpath f))))
                 \<noteq> undoCount s))"
proof -
  let ?n = "sizeof_header d"
  have p1: "recordingFile (snd (SetTotalFrames d w s frame)) =
              Some (f\<lparr>fpos := ?n, wbuf := le_encode 4 (unat frame)\<rparr>)"
    if "totalFrames s <s frame"
    by (simp add: SetTotalFrames_open [OF assms(1,2) that assms(3)])
  have p1': "take 4 (drop ?n (file_bytes (fst (snd (Close (fst (SetTotalFrames d w s frame))
                                               (snd (SetTotalFrames d w s frame))))) (fpath f)))
                 = le_encode 4 (unat frame)"
    if "totalFrames s <s frame" "?n + 4 \<le> diskLimit w"
  proof -
    have "?n + 4 \<le> diskLimit (fst (SetTotalFrames d w s frame))"
      using that(2) by (simp add: SetTotalFrames_open [OF assms(1,2) that(1) assms(3)])
    from closed_after_write4 [OF p1 [OF that(1)] this] show ?thesis .
  qed
  have p2: "recordingFile (snd (IncrementUndoCount d w s)) =
           Some (f\<lparr>fpos := ?n + 4, wbuf := le_encode 4 (unat (undoCount s + 1))\<rparr>)"
    by (simp add: IncrementUndoCount_open [OF assms])
  have p2': "take 4 (drop (?n + 4)
               (file_bytes (fst (snd (Close (fst (IncrementUndoCount d w s))
                                            (snd (IncrementUndoCount d w s))))) (fpath f)))
              = le_encode 4 (unat (undoCount s + 1))"
    if "?n + 8 \<le> diskLimit w"
  proof -
    have "?n + 4 + 4 \<le> diskLimit (fst (IncrementUndoCount d w s))"
      using that by (simp add: IncrementUndoCount_open [OF assms])
    from closed_after_write4 [OF p2 this] show ?thesis .
  qed
  have wh: "file_bytes (fst (snd (WriteHeader d w s))) (fpath f) =
              header_block s @ drop (?n + 9) (file_bytes (flushed w f) (fpath f))"
    "permitted (fst (snd (WriteHeader d w s))) = permitted w"
    if "wf_header d (header s)" "?n + 9 \<le> diskLimit w"
    using WriteHeader_contents [OF that(1) assms(2,3) that(2)] by simp_all
  have p3: "take 4 (drop ?n (file_bytes (fst (snd (WriteHeader d w s))) (fpath f))) = le_encode 4 (unat (totalFrames s))"
    "take 4 (drop (?n + 4) (file_bytes (fst (snd (WriteHeader d w s))) (fpath f))) = le_encode 4 (unat (undoCount s))"
    if "wf_header d (header s)" "?n + 9 \<le> diskLimit w"
    by (simp_all only: wh(1) [OF that] header_block_parts [OF that(1)])
  have p4: "le_decode (le_encode 4 x) = x mod 2 ^ 32"
    by (simp add: le_decode_encode)
  have p5: "unat (totalFrames (snd (snd (verifyRecordingFileHeader d w s)))) =
              le_decode (take 4 (drop ?n (contents (flushed w f) f))) + 2 ^ 32 * (unat (totalFrames s) div 2 ^ 32)"
    "unat (undoCount (snd (snd (verifyRecordingFileHeader d w s)))) =
              le_decode (take 4 (drop (?n + 4) (contents (flushed w f) f))) + 2 ^ 32 * (unat (undoCount s) div 2 ^ 32)"
    if "?n + 9 \<le> length (contents (flushed w f) f)"
    using that
    by (simp_all add: verify_snd [OF assms that] loaded_store_totalFrames loaded_store_undoCount)
  have p6: "fst (OpenExisting d (fst (snd (WriteHeader d w s))) t (fpath f))"
    "unat (totalFrames (snd (snd (OpenExisting d (fst (snd (WriteHeader d w s))) t (fpath f))))) =
              unat (totalFrames s) mod 2 ^ 32 + 2 ^ 32 * (unat (totalFrames t) div 2 ^ 32)"
    "unat (undoCount (snd (snd (OpenExisting d (fst (snd (WriteHeader d w s))) t (fpath f))))) =
              unat (undoCount s) mod 2 ^ 32 + 2 ^ 32 * (unat (undoCount t) div 2 ^ 32)"
    if h: "wf_header d (header s)" "version (header s) = 1" "?n + 9 \<le> diskLimit w" "permitted w (fpath f)"
  proof -
    let ?w = "fst (snd (WriteHeader d w s))"
    let ?rest = "drop (?n + 9) (file_bytes (flushed w f) (fpath f))"
    let ?c = "header_block s @ ?rest"
    let ?g = "fresh_stream (fpath f)"
    let ?t1 = "t\<lparr>recordingFile := Some ?g\<rparr>"
    have ne: "header_block s \<noteq> []" by (simp add: header_block_def obj_header_def)
    have room: "0 + length (header_block s) \<le> diskLimit (flushed w f)"
      using h(3) length_header_block [OF h(1)] by simp
    have a: "permitted ?w (fpath f)" "files ?w (fpath f) = Some ?c"
      using h(4)
      by (simp_all add: WriteHeader_ok [OF h(1) assms(2,3) h(3)] disk_write_room [OF room ne] overwrite_start
            length_header_block [OF h(1)])
    have len: "?n + 9 \<le> length ?c" using length_header_block [OF h(1)] by simp
    have "?c ! 0 = version (header s)" by (simp add: header_block_def obj_header_def)
    then have v: "?c ! 0 = 1" using h(2) by simp
    note ok = OpenExisting_ok [OF assms(1) a len v, of t]
    show "fst (OpenExisting d ?w t (fpath f))" by (simp add: ok)
    show "unat (totalFrames (snd (snd (OpenExisting d ?w t (fpath f))))) =
              unat (totalFrames s) mod 2 ^ 32 + 2 ^ 32 * (unat (totalFrames t) div 2 ^ 32)"
      using loaded_store_header_block(3) [OF h(1), of ?rest ?t1 ?g]
      by (simp add: ok)
    show "unat (undoCount (snd (snd (OpenExisting d ?w t (fpath f))))) =
              unat (undoCount s) mod 2 ^ 32 + 2 ^ 32 * (unat (undoCount t) div 2 ^ 32)"
      using loaded_store_header_block(4) [OF h(1), of ?rest ?t1 ?g]
      by (simp add: ok)
  qed
  have p7: "totalFrames (snd (snd (OpenExisting d (fst (snd (WriteHeader d w s))) t (fpath f)))) \<noteq> totalFrames s"
    if "wf_header d (header s)" "version (header s) = 1" "?n + 9 \<le> diskLimit w" "permitted w (fpath f)"
      "unat (totalFrames t) < 2 ^ 32" "2 ^ 32 \<le> unat (totalFrames s)"
    using p6(2) [OF that(1-4)] that(5,6) by (rule reopened_differs) simp
  have p8: "undoCount (snd (snd (OpenExisting d (fst (snd (WriteHeader d w s))) t (fpath f)))) \<noteq> undoCount s"
    if "wf_header d (header s)" "version (header s) = 1" "?n + 9 \<le> diskLimit w" "permitted w (fpath f)"
      "unat (undoCount t) < 2 ^ 32" "2 ^ 32 \<le> unat (undoCount s)"
    using p6(3) [OF that(1-4)] that(5,6) by (rule reopened_differs) simp
  show ?thesis
    using p1 p1' p2 p2' p3 p4 p5 p6 p7 p8 by blast
qed

lemma written_store_eq:
  "written_store = open_store\<lparr>recordingFile := Some \<lparr>fpath = ''a.p2m2'', fpos = 570, wbuf = []\<rparr>\<rparr>"
proof -
  have fl: "flushes one_file_world (fresh_stream ''a.p2m2'')" by simp
  show ?thesis
    using WriteHeader_ok [OF wf_open_store open_store_stream fl room_one_file_world]
    by (simp add: written_store_def sizeof_header_pcsx2 fresh_stream_def)
qed

lemma counted_eq:
  "counted_world = written_world"
  "counted_store = open_store\<lparr>totalFrames := 4294967301,
                              recordingFile := Some \<lparr>fpath = ''a.p2m2'', fpos = 561,
                                                     wbuf = le_encode 4 (unat (4294967301 :: long))\<rparr>\<rparr>"
proof -
  let ?f = "\<lparr>fpath = ''a.p2m2'', fpos = 570, wbuf = []\<rparr>"
  have rf: "recordingFile written_store = Some ?f" by (simp add: written_store_eq)
  have lt: "totalFrames written_store <s 4294967301"
    by (simp add: written_store_eq open_store_def closed_store_def word_sless_alt)
  have fl: "flushes written_world ?f" by simp
  note st = SetTotalFrames_open [OF wf_pcsx2_decls rf lt fl]
  show "counted_world = written_world"
    by (simp only: counted_world_def st) simp
  show "counted_store = open_store\<lparr>totalFrames := 4294967301,
                              recordingFile := Some \<lparr>fpath = ''a.p2m2'', fpos = 561,
                                                     wbuf = le_encode 4 (unat (4294967301 :: long))\<rparr>\<rparr>"
    by (simp only: counted_store_def st) (simp add: sizeof_header_pcsx2 written_store_eq)
qed

text \<open>
  The same store object, closed and reopened on its own file, keeps the upper half of
  its counter: the count \<open>2^32 + 5\<close> is preserved across that close and reopen.
\<close>

theorem C9_same_store_reopen_counterexample:
  "2 ^ 32 \<le> unat (totalFrames counted_store) \<and>
   fst (OpenExisting pcsx2_decls closed_world (snd (snd (Close counted_world counted_store))) ''a.p2m2'') \<and>
   totalFrames (snd (snd (OpenExisting pcsx2_decls closed_world
                    (snd (snd (Close counted_world counted_store))) ''a.p2m2'')))
     = totalFrames counted_store"
proof -
  let ?le = "le_encode 4 (unat (4294967301 :: long))"
  let ?f = "\<lparr>fpath = ''a.p2m2'', fpos = 561, wbuf = ?le\<rparr>"
  let ?g = "fresh_stream ''a.p2m2''"
  let ?c = "overwrite (header_block open_store) 561 ?le"
  let ?s3 = "snd (snd (Close counted_world counted_store))"
  have rf: "recordingFile counted_store = Some ?f" by (simp add: counted_eq)
  have lim: "diskLimit written_world = 1000000" "permitted written_world ''a.p2m2''"
    "file_bytes written_world ''a.p2m2'' = header_block open_store"
    by (simp_all add: written_world_files one_file_world_def empty_world_def file_bytes_def)
  have fl: "flushes written_world ?f" by (simp add: flushes_def lim)
  have cl: "Close counted_world counted_store =
              (True, flushed written_world ?f, counted_store\<lparr>recordingFile := None, filename := []\<rparr>)"
    using Close_open [OF rf fl] by (simp add: counted_eq(1))
  have tf: "totalFrames counted_store = 4294967301" "totalFrames ?s3 = 4294967301"
    by (simp_all add: cl) (simp_all add: counted_eq)
  have big: "2 ^ 32 \<le> unat (totalFrames counted_store)" by (simp add: tf)
  have room: "561 + length ?le \<le> diskLimit written_world" by (simp add: lim)
  have ne: "?le \<noteq> []" by (rule le_encode_nonempty) simp
  have cw: "closed_world = written_world\<lparr>files := (files written_world)(''a.p2m2'' \<mapsto> ?c)\<rparr>"
    using disk_write_room [OF room ne, of "''a.p2m2''"]
    by (simp add: closed_world_def cl flushed_def lim)
  have files: "files closed_world ''a.p2m2'' = Some ?c" "permitted closed_world ''a.p2m2''"
    using lim by (simp_all add: cw)
  have len: "sizeof_header pcsx2_decls + 9 \<le> length ?c"
    by (simp add: overwrite_def header_block_open_store sizeof_header_pcsx2)
  have v: "?c ! 0 = 1"
    using overwrite_nth_outside [of 0 "header_block open_store" 561 ?le]
      header_block_open_store by simp
  note ok = OpenExisting_ok [OF wf_pcsx2_decls files(2,1) len v, of ?s3]
  have field: "take 4 (drop (sizeof_header pcsx2_decls) ?c) = ?le"
    using overwrite_read_back [of ?le 561 "header_block open_store"]
    by (simp add: sizeof_header_pcsx2)
  have l4: "sizeof_header pcsx2_decls + 4 \<le> length ?c" using len by simp
  have "unat (totalFrames (snd (snd (OpenExisting pcsx2_decls closed_world ?s3 ''a.p2m2'')))) =
          le_decode (take 4 (drop (sizeof_header pcsx2_decls) ?c))
            + 2 ^ 32 * (unat (totalFrames ?s3) div 2 ^ 32)"
    using loaded_store_totalFrames [OF l4, of "?s3\<lparr>recordingFile := Some ?g\<rparr>" ?g]
    by (simp add: ok)
  also have "\<dots> = 4294967301"
    by (simp only: field le_decode_encode tf) simp
  finally have "unat (totalFrames (snd (snd (OpenExisting pcsx2_decls closed_world ?s3 ''a.p2m2'')))) = 4294967301" .
  then have "of_nat (unat (totalFrames (snd (snd (OpenExisting pcsx2_decls closed_world ?s3 ''a.p2m2''))))) =
               (of_nat 4294967301 :: long)" by (simp only:)
  then have "totalFrames (snd (snd (OpenExisting pcsx2_decls closed_world ?s3 ''a.p2m2''))) = 4294967301"
    by simp
  with big ok tf show ?thesis by simp
qed


theorem C9_counters_witness:
  "wf_decls pcsx2_decls \<and> recordingFile big_store = Some (fresh_stream ''a.p2m2'') \<and>
   flushes one_file_world (fresh_stream ''a.p2m2'') \<and>
   totalFrames big_store <s 4294967302 \<and> wf_header pcsx2_decls (header big_store) \<and>
   version (header big_store) = 1 \<and> sizeof_header pcsx2_decls + 9 \<le> diskLimit one_file_world \<and>
   permitted one_file_world ''a.p2m2'' \<and>
   unat (totalFrames closed_store) < 2 ^ 32 \<and> 2 ^ 32 \<le> unat (totalFrames big_store) \<and>
   unat (undoCount closed_store) < 2 ^ 32 \<and> 2 ^ 32 \<le> unat (undoCount big_store) \<and>
   recordingFile (snd (SetTotalFrames pcsx2_decls one_file_world big_store 4294967302)) =
     Some \<lparr>fpath = ''a.p2m2'', fpos = 561, wbuf = le_encode 4 (unat (4294967302 :: long))\<rparr> \<and>
   take 4 (drop 561 (file_bytes (fst (snd (Close
       (fst (SetTotalFrames pcsx2_decls one_file_world big_store 4294967302))
       (snd (SetTotalFrames pcsx2_decls one_file_world big_store 4294967302))))) ''a.p2m2''))
     = le_encode 4 (unat (4294967302 :: long)) \<and>
   recordingFile (snd (IncrementUndoCount pcsx2_decls one_file_world big_store)) =
     Some \<lparr>fpath = ''a.p2m2'', fpos = 565, wbuf = le_encode 4 (unat (4294967300 :: long))\<rparr> \<and>
   take 4 (drop 565 (file_bytes (fst (snd (Close
       (fst (IncrementUndoCount pcsx2_decls one_file_world big_store))
       (snd (IncrementUndoCount pcsx2_decls one_file_world big_store))))) ''a.p2m2''))
     = le_encode 4 (unat (4294967300 :: long)) \<and>
   take 4 (drop 561 (file_bytes (fst (snd (WriteHeader pcsx2_decls one_file_world big_store))) ''a.p2m2''))
     = le_encode 4 (unat (4294967301 :: long)) \<and>
   le_decode (le_encode 4 4294967301) = 5 \<and>
   fst (OpenExisting pcsx2_decls (fst (snd (WriteHeader pcsx2_decls one_file_world big_store)))
          closed_store ''a.p2m2'') \<and>
   unat (totalFrames (snd (snd (OpenExisting pcsx2_decls
           (fst (snd (WriteHeader pcsx2_decls one_file_world big_store))) closed_store ''a.p2m2'')))) = 5 \<and>
   unat (undoCount (snd (snd (OpenExisting pcsx2_decls
           (fst (snd (WriteHeader pcsx2_decls one_file_world big_store))) closed_store ''a.p2m2'')))) = 3 \<and>
   totalFrames (snd (snd (OpenExisting pcsx2_decls
           (fst (snd (WriteHeader pcsx2_decls one_file_world big_store))) closed_store ''a.p2m2'')))
     \<noteq> totalFrames big_store \<and>
   undoCount (snd (snd (OpenExisting pcsx2_decls
           (fst (snd (WriteHeader pcsx2_decls one_file_world big_store))) closed_store ''a.p2m2'')))
     \<noteq> undoCount big_store \<and>
   570 \<le> length (contents written_world (fresh_stream ''a.p2m2'')) \<and>
   unat (totalFrames (snd (snd (verifyRecordingFileHeader pcsx2_decls written_world open_store)))) =
     le_decode (take 4 (drop 561 (contents written_world (fresh_stream ''a.p2m2''))))"
proof -
  let ?f = "fresh_stream ''a.p2m2''"
  have rf: "recordingFile big_store = Some ?f" "recordingFile open_store = Some ?f"
    by (simp_all add: big_store_def open_store_def)
  have fl: "flushes one_file_world ?f" "flushes written_world ?f" by simp_all
  have fw: "flushed written_world ?f = written_world" by simp
  have wfh: "wf_header pcsx2_decls (header big_store)"
    using wf_open_store by (simp add: big_store_def)
  have h: "totalFrames big_store <s 4294967302" "version (header big_store) = 1"
    "permitted one_file_world ''a.p2m2''" "diskLimit one_file_world = 1000000"
    "unat (totalFrames closed_store) < 2 ^ 32" "2 ^ 32 \<le> unat (totalFrames big_store)"
    "unat (undoCount closed_store) < 2 ^ 32" "2 ^ 32 \<le> unat (undoCount big_store)"
    "undoCount big_store + 1 = 4294967300" "totalFrames big_store = 4294967301"
    "undoCount big_store = 4294967299"
    "totalFrames closed_store = 0" "undoCount closed_store = 0" "totalFrames open_store = 0"
    by (simp_all add: big_store_def open_store_def closed_store_def loaded_header_def
        one_file_world_def empty_world_def word_sless_alt)
  have fs: "?f\<lparr>fpos := p, wbuf := b\<rparr> = \<lparr>fpath = ''a.p2m2'', fpos = p, wbuf = b\<rparr>" for p b
    by (simp add: fresh_stream_def)
  have len: "570 \<le> length (contents written_world ?f)"
    by (simp add: written_world_files contents_def file_bytes_def header_block_open_store)
  note a = C9_counters_keep_four_bytes [OF wf_pcsx2_decls rf(1) fl(1), where frame = 4294967302
      and x = 4294967301 and t = closed_store]
  note b = C9_counters_keep_four_bytes [OF wf_pcsx2_decls rf(2) fl(2), where frame = 0
      and x = 0 and t = closed_store]
  from b len have vb: "unat (totalFrames (snd (snd (verifyRecordingFileHeader pcsx2_decls written_world open_store)))) =
     le_decode (take 4 (drop 561 (contents written_world ?f)))"
    by (simp add: sizeof_header_pcsx2 h(14) fw)
  from a wfh h have
    "recordingFile (snd (SetTotalFrames pcsx2_decls one_file_world big_store 4294967302)) =
       Some \<lparr>fpath = ''a.p2m2'', fpos = 561, wbuf = le_encode 4 (unat (4294967302 :: long))\<rparr>"
    "take 4 (drop 561 (file_bytes (fst (snd (Close
       (fst (SetTotalFrames pcsx2_decls one_file_world big_store 4294967302))
       (snd (SetTotalFrames pcsx2_decls one_file_world big_store 4294967302))))) ''a.p2m2''))
     = le_encode 4 (unat (4294967302 :: long))"
    "recordingFile (snd (IncrementUndoCount pcsx2_decls one_file_world big_store)) =
       Some \<lparr>fpath = ''a.p2m2'', fpos = 565, wbuf = le_encode 4 (unat (4294967300 :: long))\<rparr>"
    "take 4 (drop 565 (file_bytes (fst (snd (Close
       (fst (IncrementUndoCount pcsx2_decls one_file_world big_store))
       (snd (IncrementUndoCount pcsx2_decls one_file_world big_store))))) ''a.p2m2''))
     = le_encode 4 (unat (4294967300 :: long))"
    "take 4 (drop 561 (file_bytes (fst (snd (WriteHeader pcsx2_decls one_file_world big_store))) ''a.p2m2''))
       = le_encode 4 (unat (4294967301 :: long))"
    "le_decode (le_encode 4 4294967301) = 5"
    "fst (OpenExisting pcsx2_decls (fst (snd (WriteHeader pcsx2_decls one_file_world big_store)))
          closed_store ''a.p2m2'')"
    "unat (totalFrames (snd (snd (OpenExisting pcsx2_decls
           (fst (snd (WriteHeader pcsx2_decls one_file_world big_store))) closed_store ''a.p2m2'')))) = 5"
    "unat (undoCount (snd (snd (OpenExisting pcsx2_decls
           (fst (snd (WriteHeader pcsx2_decls one_file_world big_store))) closed_store ''a.p2m2'')))) = 3"
    "totalFrames (snd (snd (OpenExisting pcsx2_decls
           (fst (snd (WriteHeader pcsx2_decls one_file_world big_store))) closed_store ''a.p2m2'')))
     \<noteq> totalFrames big_store"
    "undoCount (snd (snd (OpenExisting pcsx2_decls
           (fst (snd (WriteHeader pcsx2_decls one_file_world big_store))) closed_store ''a.p2m2'')))
     \<noteq> undoCount big_store"
    by (simp_all add: sizeof_header_pcsx2 fs)
  with wf_pcsx2_decls rf(1) fl(1) wfh h(1-3,5-8) room_one_file_world len vb show ?thesis by blast
qed

subsection \<open>Offsets of the single-byte paths\<close>

lemma sint_of_nat_int:
  assumes "n < 2 ^ 31"
  shows "sint (of_nat n :: 32 word) = int n"
proof -
  have "sint (of_nat n :: 32 word) = signed_take_bit 31 (int n)"
    using sint_sbintrunc' [where 'a = 32, of "int n"] by simp
  also have "\<dots> = int n"
    using assms by (intro signed_take_bit_int_eq_self) simp_all
  finally show ?thesis .
qed

lemma sint_small:
  assumes "unat (x :: 32 word) < 2 ^ 31"
  shows "sint x = int (unat x)"
proof -
  have "x = of_nat (unat x)" by simp
  then have "sint x = sint (of_nat (unat x) :: 32 word)" by simp
  also have "\<dots> = int (unat x)" using assms by (rule sint_of_nat_int)
  finally show ?thesis .
qed

lemma sint_long_of_int:
  assumes "0 \<le> k" and "k < 2 ^ 63"
  shows "sint (word_of_int k :: long) = k"
proof -
  have "sint (word_of_int k :: long) = signed_take_bit 63 k"
    using sint_sbintrunc' [where 'a = 64, of k] by simp
  also have "\<dots> = k"
    using assms by (intro signed_take_bit_int_eq_self) simp_all
  finally show ?thesis .
qed

lemma seek_value:
  assumes "wf_decls d" and "controllerInputBytes d = 18"
    and "port < controllerPortsSupported d" and "bufIndex < controllerInputBytes d"
  shows "readSeek d frame port bufIndex = word_of_int (byteOffset d (uint frame) (uint port) (uint bufIndex))"
    and "0 \<le> byteOffset d (uint frame) (uint port) (uint bufIndex)"
    and "byteOffset d (uint frame) (uint port) (uint bufIndex) < 2 ^ 63"
proof -
  let ?N = "sizeof_header d + 4 + 4"
  let ?P = "unat (controllerPortsSupported d)"
  have N: "?N < 2 ^ 31" using assms(1) by (simp add: wf_decls_def)
  have P: "18 * ?P < 2 ^ 31" "0 < ?P" using assms(1,2) by (simp_all add: wf_decls_def)
  have p: "unat port < ?P" using assms(3) by (simp add: word_less_nat_alt)
  have i: "unat bufIndex < 18" using assms(2,4) by (simp add: word_less_nat_alt)
  have F: "unat frame < 2 ^ 32" using unsigned_less [of frame] by simp
  have sP: "sint (controllerPortsSupported d) = int ?P"
    using P by (intro sint_small) simp
  have sC: "sint (controllerInputBytes d) = 18" by (simp add: assms(2))
  have "sint (headerSize d) = int ?N"
    unfolding headerSize_def by (rule sint_of_nat_int [OF N])
  then have hs: "(scast (headerSize d) :: long) = word_of_int (int ?N)"
    by (simp only: scast_eq)
  have "unat (controllerInputBytes d) * unat (controllerPortsSupported d) < 2 ^ LENGTH(32)"
    using P by (simp add: assms(2))
  then have "unat (controllerInputBytes d * controllerPortsSupported d)
               = unat (controllerInputBytes d) * unat (controllerPortsSupported d)"
    by (rule unat_mult_lem [THEN iffD1])
  then have "unat (inputBytesPerFrame d) = 18 * ?P"
    by (simp add: inputBytesPerFrame_def assms(2))
  then have "sint (inputBytesPerFrame d) = int (18 * ?P)"
    using P by (simp add: sint_small)
  then have "sint (inputBytesPerFrame d) = 18 * int ?P" by simp
  then have ib: "(scast (inputBytesPerFrame d) :: long) = word_of_int (18 * int ?P)"
    by (simp only: scast_eq)
  have "unat (18 :: 32 word) * unat port < 2 ^ LENGTH(32)" using p P by simp
  then have "unat (18 * port) = unat (18 :: 32 word) * unat port"
    by (rule unat_mult_lem [THEN iffD1])
  then have "unat (18 * port) = 18 * unat port" by simp
  then have "int (unat (18 * port)) = 18 * int (unat port)" by simp
  then have "uint (18 * port) = 18 * uint port" by (simp only: uint_nat [symmetric])
  then have cp: "uint (controllerInputBytes d * port) = 18 * uint port"
    by (simp only: assms(2))
  have "readSeek d frame port bufIndex =
          word_of_int (int ?N) + 1 + word_of_int (uint frame) * word_of_int (18 * int ?P)
            + word_of_int (18 * uint port) + word_of_int (uint bufIndex)"
    by (simp only: readSeek_def getRecordingBlockSeekPoint_def hs ib cp ucast_eq)
  also have "\<dots> = word_of_int (int ?N + 1 + uint frame * (18 * int ?P) + 18 * uint port + uint bufIndex)"
    by simp
  also have "int ?N + 1 + uint frame * (18 * int ?P) + 18 * uint port + uint bufIndex
               = byteOffset d (uint frame) (uint port) (uint bufIndex)"
    by (simp add: byteOffset_def frameRecordOffset_def sP sC)
  finally show "readSeek d frame port bufIndex = word_of_int (byteOffset d (uint frame) (uint port) (uint bufIndex))" .
  have eq: "byteOffset d (uint frame) (uint port) (uint bufIndex)
          = int (?N + 1 + unat frame * (18 * ?P) + 18 * unat port + unat bufIndex)"
    by (simp only: byteOffset_def frameRecordOffset_def sP sC uint_nat [of frame] uint_nat [of port]
          uint_nat [of bufIndex]) simp
  show "0 \<le> byteOffset d (uint frame) (uint port) (uint bufIndex)"
    by (simp only: eq of_nat_0_le_iff)
  define X where "X = unat frame * (18 * ?P)"
  have "unat frame \<le> 2 ^ 32 - 1" "18 * ?P \<le> 2 ^ 31 - 1" using F P by simp_all
  then have "unat frame * (18 * ?P) \<le> (2 ^ 32 - 1) * (2 ^ 31 - 1)" by (rule mult_le_mono)
  then have X: "X \<le> 9223372030412324865" by (simp add: X_def)
  have "18 * unat port < 2 ^ 31" using p P by simp
  then have "?N + 1 + X + 18 * unat port + unat bufIndex < 2 ^ 63"
    using N X i by simp
  then have "?N + 1 + unat frame * (18 * ?P) + 18 * unat port + unat bufIndex < 2 ^ 63"
    by (simp only: X_def)
  then have "int (?N + 1 + unat frame * (18 * ?P) + 18 * unat port + unat bufIndex) < int (2 ^ 63)"
    by (simp only: of_nat_less_iff)
  then show "byteOffset d (uint frame) (uint port) (uint bufIndex) < 2 ^ 63"
    by (simp only: eq) simp
qed


lemma WriteKeyBuffer_open:
  assumes "recordingFile s = Some f" and "flushes w f" and "\<not> writeSeek d frame port bufIndex <s 0"
  shows "WriteKeyBuffer d w s frame port bufIndex buf =
           (True, disk_write (flushed w f) (fpath f) (unat (writeSeek d frame port bufIndex)) [buf],
            s\<lparr>recordingFile := Some (f\<lparr>fpos := unat (writeSeek d frame port bufIndex) + 1, wbuf := []\<rparr>)\<rparr>)"
  using assms(1)
  by (simp add: WriteKeyBuffer_def fseek_ok [OF assms(2,3)] fwrite_def fflush_def)

lemma WriteKeyBuffer_fst:
  assumes "recordingFile s = Some f"
  shows "fst (WriteKeyBuffer d w s frame port bufIndex buf) \<longleftrightarrow>
           flushes w f \<and> \<not> writeSeek d frame port bufIndex <s 0"
proof -
  obtain r f1 w1 where sk: "fseek f (writeSeek d frame port bufIndex) w = (r, f1, w1)"
    by (cases "fseek f (writeSeek d frame port bufIndex) w") auto
  then have "r = 0 \<longleftrightarrow> flushes w f \<and> \<not> writeSeek d frame port bufIndex <s 0"
    using fseek_fst [of f "writeSeek d frame port bufIndex" w] by simp
  then show ?thesis
    using assms sk by (auto simp: WriteKeyBuffer_def fwrite_def split: prod.splits)
qed

lemma ReadKeyBuffer_open:
  assumes "recordingFile s = Some f" and "wbuf f = []" and "\<not> readSeek d frame port bufIndex <s 0"
    and "take 1 (drop (unat (readSeek d frame port bufIndex)) (contents w f)) = [b]"
  shows "ReadKeyBuffer d w s r frame port bufIndex =
           (True, b, w, s\<lparr>recordingFile := Some (f\<lparr>fpos := unat (readSeek d frame port bufIndex) + 1, wbuf := []\<rparr>)\<rparr>)"
proof -
  let ?k = "unat (readSeek d frame port bufIndex)"
  let ?f1 = "f\<lparr>fpos := ?k, wbuf := []\<rparr>"
  have fl: "flushes w f" and fw: "flushed w f = w" using assms(2) by simp_all
  have sk: "fseek f (readSeek d frame port bufIndex) w = (0, ?f1, w)"
    using fseek_ok [OF fl assms(3)] by (simp add: fw)
  have e: "wbuf ?f1 = []" by simp
  have "drop ?k (contents w f) \<noteq> []" using assms(4) by auto
  then have "fpos ?f1 + 1 * 1 \<le> length (contents w ?f1)" by (simp add: contents_def)
  from fread_ok [OF e this, of "[r]"] have "fread [r] 1 1 ?f1 w = (1, [b], f\<lparr>fpos := ?k + 1, wbuf := []\<rparr>, w)"
    using assms(4) by (simp add: contents_def)
  then show ?thesis
    using assms(1) by (simp add: ReadKeyBuffer_def sk u8_obj_def)
qed

lemma write_then_read:
  assumes "writeSeek d frame port bufIndex = readSeek d frame port bufIndex"
    and "recordingFile s = Some f" and "fst (WriteKeyBuffer d w s frame port bufIndex buf)"
    and "unat (writeSeek d frame port bufIndex) < diskLimit w"
  shows "fst (ReadKeyBuffer d (fst (snd (WriteKeyBuffer d w s frame port bufIndex buf)))
           (snd (snd (WriteKeyBuffer d w s frame port bufIndex buf))) r frame port bufIndex)"
    and "fst (snd (ReadKeyBuffer d (fst (snd (WriteKeyBuffer d w s frame port bufIndex buf)))
           (snd (snd (WriteKeyBuffer d w s frame port bufIndex buf))) r frame port bufIndex)) = buf"
proof -
  let ?k = "readSeek d frame port bufIndex"
  let ?W = "WriteKeyBuffer d w s frame port bufIndex buf"
  let ?f1 = "f\<lparr>fpos := unat ?k + 1, wbuf := []\<rparr>"
  let ?w1 = "disk_write (flushed w f) (fpath f) (unat ?k) [buf]"
  have fl: "flushes w f" and nn: "\<not> ?k <s 0"
    using WriteKeyBuffer_fst [OF assms(2), of d w frame port bufIndex buf] assms(1,3) by simp_all
  have nn': "\<not> writeSeek d frame port bufIndex <s 0" using nn assms(1) by simp
  have Weq: "?W = (True, ?w1, s\<lparr>recordingFile := Some ?f1\<rparr>)"
    using WriteKeyBuffer_open [OF assms(2) fl nn', of buf] assms(1) by simp
  have rf: "recordingFile (snd (snd ?W)) = Some ?f1" by (simp add: Weq)
  have e: "wbuf ?f1 = []" by simp
  have room: "unat ?k + length [buf] \<le> diskLimit (flushed w f)" using assms(1,4) by simp
  have rb: "take 1 (drop (unat ?k) (contents (fst (snd ?W)) ?f1)) = [buf]"
    using disk_write_read_back [OF room, of "fpath f"] by (simp add: Weq contents_def)
  note R = ReadKeyBuffer_open [OF rf e nn rb, of r]
  show "fst (ReadKeyBuffer d (fst (snd ?W)) (snd (snd ?W)) r frame port bufIndex)"
    by (simp add: R)
  show "fst (snd (ReadKeyBuffer d (fst (snd ?W)) (snd (snd ?W)) r frame port bufIndex)) = buf"
    by (simp add: R)
qed

text \<open>
  C1. With 18 for \<open>controllerInputBytes\<close>, the value the write side has as a literal,
  the write-side and the read-side offset are the same machine value for every frame,
  port and byte index, and for a port and index in range this value is the integer
  \<open>frameRecordOffset(frame) + port * controllerInputBytes + byteIndex\<close> of the
  specification. On an open store, when \<open>WriteKeyBuffer\<close> has returned true and the
  offset is below what the disk holds, \<open>ReadKeyBuffer\<close> at the same triple succeeds and
  reads the byte written; and for a triple in range \<open>WriteKeyBuffer\<close> does return true
  when the stream can be flushed.
\<close>

theorem C1_write_read_round_trip:
  assumes "wf_decls d" and "controllerInputBytes d = 18"
  shows "writeSeek d frame port bufIndex = readSeek d frame port bufIndex \<and>
         (port < controllerPortsSupported d \<and> bufIndex < controllerInputBytes d \<longrightarrow>
            sint (readSeek d frame port bufIndex) = byteOffset d (uint frame) (uint port) (uint bufIndex) \<and>
            sint (writeSeek d frame port bufIndex) = byteOffset d (uint frame) (uint port) (uint bufIndex)) \<and>
         (IsFileOpen s \<and> fst (WriteKeyBuffer d w s frame port bufIndex buf) \<and>
          unat (writeSeek d frame port bufIndex) < diskLimit w \<longrightarrow>
            fst (ReadKeyBuffer d (fst (snd (WriteKeyBuffer d w s frame port bufIndex buf)))
                   (snd (snd (WriteKeyBuffer d w s frame port bufIndex buf))) r frame port bufIndex) \<and>
            fst (snd (ReadKeyBuffer d (fst (snd (WriteKeyBuffer d w s frame port bufIndex buf)))
                   (snd (snd (WriteKeyBuffer d w s frame port bufIndex buf))) r frame port bufIndex)) = buf) \<and>
         (\<forall>f. recordingFile s = Some f \<and> flushes w f \<and>
               port < controllerPortsSupported d \<and> bufIndex < controllerInputBytes d \<longrightarrow>
            fst (WriteKeyBuffer d w s frame port bufIndex buf) \<and>
            (byteOffset d (uint frame) (uint port) (uint bufIndex) < int (diskLimit w) \<longrightarrow>
               unat (writeSeek d frame port bufIndex) < diskLimit w))"
proof -
  have eq: "writeSeek d frame port bufIndex = readSeek d frame port bufIndex"
    by (simp add: writeSeek_def readSeek_def assms(2))
  have val: "sint (readSeek d frame port bufIndex) = byteOffset d (uint frame) (uint port) (uint bufIndex)"
    if "port < controllerPortsSupported d" "bufIndex < controllerInputBytes d"
    using seek_value [OF assms that, of frame] by (simp only: sint_long_of_int)
  have rt: "fst (ReadKeyBuffer d (fst (snd (WriteKeyBuffer d w s frame port bufIndex buf)))
                   (snd (snd (WriteKeyBuffer d w s frame port bufIndex buf))) r frame port bufIndex)"
    "fst (snd (ReadKeyBuffer d (fst (snd (WriteKeyBuffer d w s frame port bufIndex buf)))
                   (snd (snd (WriteKeyBuffer d w s frame port bufIndex buf))) r frame port bufIndex)) = buf"
    if "IsFileOpen s" "fst (WriteKeyBuffer d w s frame port bufIndex buf)"
      "unat (writeSeek d frame port bufIndex) < diskLimit w"
  proof -
    from that(1) have "recordingFile s \<noteq> None" by (simp add: IsFileOpen_def)
    then obtain f where f: "recordingFile s = Some f" by blast
    note t = write_then_read [OF eq f that(2,3), of r]
    show "fst (ReadKeyBuffer d (fst (snd (WriteKeyBuffer d w s frame port bufIndex buf)))
                   (snd (snd (WriteKeyBuffer d w s frame port bufIndex buf))) r frame port bufIndex)"
      by (rule t(1))
    show "fst (snd (ReadKeyBuffer d (fst (snd (WriteKeyBuffer d w s frame port bufIndex buf)))
                   (snd (snd (WriteKeyBuffer d w s frame port bufIndex buf))) r frame port bufIndex)) = buf"
      by (rule t(2))
  qed
  have wr: "fst (WriteKeyBuffer d w s frame port bufIndex buf) \<and>
            (byteOffset d (uint frame) (uint port) (uint bufIndex) < int (diskLimit w) \<longrightarrow>
               unat (writeSeek d frame port bufIndex) < diskLimit w)"
    if "recordingFile s = Some f" "flushes w f"
      "port < controllerPortsSupported d" "bufIndex < controllerInputBytes d" for f
  proof -
    let ?k = "writeSeek d frame port bufIndex"
    have sk: "sint ?k = byteOffset d (uint frame) (uint port) (uint bufIndex)"
      using val [OF that(3,4)] eq by simp
    have nn: "0 \<le> sint ?k" using seek_value(2) [OF assms that(3,4), of frame] sk by simp
    then have a: "\<not> ?k <s 0" by (simp add: word_sless_alt)
    let ?B = "byteOffset d (uint frame) (uint port) (uint bufIndex)"
    have B: "0 \<le> ?B" "?B < 2 ^ 64"
      using seek_value(2,3) [OF assms that(3,4), of frame] by simp_all
    have "uint ?k = ?B mod 2 ^ 64"
      using seek_value(1) [OF assms that(3,4), of frame] eq by (simp only: uint_word_of_int) simp
    also have "\<dots> = ?B" using B by simp
    finally have u: "uint ?k = ?B" .
    have iu: "int (unat ?k) = uint ?k" by (rule uint_nat [symmetric])
    have lim: "unat ?k < diskLimit w" if "?B < int (diskLimit w)"
    proof -
      from iu u that have "int (unat ?k) < int (diskLimit w)" by (simp only:)
      then show ?thesis by (simp only: of_nat_less_iff)
    qed
    have "fst (WriteKeyBuffer d w s frame port bufIndex buf)"
      using WriteKeyBuffer_fst [OF that(1), of d w frame port bufIndex buf] that(2) a by simp
    with lim show ?thesis by simp
  qed
  show ?thesis using eq val rt wr by simp
qed

theorem C1_write_read_witness:
  "wf_decls pcsx2_decls \<and> controllerInputBytes pcsx2_decls = 18 \<and>
   (1 :: uint) < controllerPortsSupported pcsx2_decls \<and> (17 :: uint) < controllerInputBytes pcsx2_decls \<and>
   IsFileOpen open_store \<and> recordingFile open_store = Some (fresh_stream ''a.p2m2'') \<and>
   flushes one_file_world (fresh_stream ''a.p2m2'') \<and>
   byteOffset pcsx2_decls (uint (3 :: uint)) (uint (1 :: uint)) (uint (17 :: uint)) = 713 \<and>
   713 < int (diskLimit one_file_world) \<and>
   unat (writeSeek pcsx2_decls 3 1 17) < diskLimit one_file_world \<and>
   fst (WriteKeyBuffer pcsx2_decls one_file_world open_store 3 1 17 171) \<and>
   writeSeek pcsx2_decls 3 1 17 = readSeek pcsx2_decls 3 1 17 \<and>
   sint (readSeek pcsx2_decls 3 1 17) = 713 \<and>
   fst (ReadKeyBuffer pcsx2_decls (fst (snd (WriteKeyBuffer pcsx2_decls one_file_world open_store 3 1 17 171)))
          (snd (snd (WriteKeyBuffer pcsx2_decls one_file_world open_store 3 1 17 171))) 0 3 1 17) \<and>
   fst (snd (ReadKeyBuffer pcsx2_decls (fst (snd (WriteKeyBuffer pcsx2_decls one_file_world open_store 3 1 17 171)))
          (snd (snd (WriteKeyBuffer pcsx2_decls one_file_world open_store 3 1 17 171))) 0 3 1 17)) = 171"
proof -
  have c: "controllerInputBytes pcsx2_decls = 18" by (simp add: pcsx2_decls_def)
  have h: "(1 :: uint) < controllerPortsSupported pcsx2_decls" "(17 :: uint) < controllerInputBytes pcsx2_decls"
    "IsFileOpen open_store" "diskLimit one_file_world = 1000000"
    "recordingFile open_store = Some (fresh_stream ''a.p2m2'')"
    "flushes one_file_world (fresh_stream ''a.p2m2'')"
    by (simp_all add: pcsx2_decls_def IsFileOpen_def open_store_def one_file_world_def empty_world_def)
  have b: "byteOffset pcsx2_decls (uint (3 :: uint)) (uint (1 :: uint)) (uint (17 :: uint)) = 713"
    by (simp add: byteOffset_def frameRecordOffset_def sizeof_header_pcsx2) (simp add: pcsx2_decls_def)
  note t = C1_write_read_round_trip [OF wf_pcsx2_decls c, where frame = 3 and port = 1 and bufIndex = 17
      and s = open_store and w = one_file_world and buf = 171 and r = 0]
  from t have eq: "writeSeek pcsx2_decls 3 1 17 = readSeek pcsx2_decls 3 1 17" by simp
  from t h b have wr: "fst (WriteKeyBuffer pcsx2_decls one_file_world open_store 3 1 17 171)"
    "unat (writeSeek pcsx2_decls 3 1 17) < diskLimit one_file_world"
    by (simp_all add: eq)
  from t h b wr wf_pcsx2_decls c show ?thesis by (simp add: eq)
qed

subsection \<open>Bulk read of a block that is not all there\<close>

lemma pcsx2_seek_frame0: "getRecordingBlockSeekPoint pcsx2_decls (scast (0 :: c_int)) + ucast (controllerInputBytes pcsx2_decls * 0) = 570"
  by (simp add: getRecordingBlockSeekPoint_def headerSize_def sizeof_header_pcsx2 inputBytesPerFrame_def)

lemma truncated_read:
  "fread (map (\<lambda>i. 0) [0..<18]) (Suc 0) 18 \<lparr>fpath = ''a.p2m2'', fpos = 570, wbuf = []\<rparr> truncated_world =
     (5, [1, 2, 3, 4, 5] @ replicate 13 0, \<lparr>fpath = ''a.p2m2'', fpos = 575, wbuf = []\<rparr>, truncated_world)"
proof -
  have "map (\<lambda>i. 0 :: byte) [0..<18] = replicate 18 0" by (simp add: map_replicate_const)
  moreover have "contents truncated_world \<lparr>fpath = ''a.p2m2'', fpos = 570, wbuf = []\<rparr> = header_block open_store @ [1, 2, 3, 4, 5]"
    by (simp add: truncated_world_def contents_def file_bytes_def)
  ultimately show ?thesis
    using header_block_open_store(1) by (simp add: fread_def fflush_empty Let_def)
qed

text \<open>
  C2 asks that a frame is in the result only when the read of its full per-port block
  succeeds. On the recording that ends inside the block of frame 0, \<open>fread\<close> returns 5
  of the 18 bytes asked for; \<open>BulkReadPadData\<close> tests the count against 0 only, so for the
  range from 0 to 1 it returns frame 0, made of the 5 bytes read and the 13 bytes the
  array held before.
\<close>

theorem C2_BulkReadPadData_partial_block:
  "BulkReadPadData pcsx2_decls bytes_PadData truncated_world open_store (\<lambda>i. 0) 0 1 0 =
     Inr (Map.empty(0 \<mapsto> [1, 2, 3, 4, 5] @ replicate 13 0),
          truncated_world,
          open_store\<lparr>recordingFile := Some \<lparr>fpath = ''a.p2m2'', fpos = 575, wbuf = []\<rparr>\<rparr>)"
proof -
  let ?f = "\<lparr>fpath = ''a.p2m2'', fpos = 0, wbuf = []\<rparr>"
  let ?f1 = "\<lparr>fpath = ''a.p2m2'', fpos = 575, wbuf = []\<rparr>"
  let ?pad = "map (\<lambda>i. 0 :: byte) [0..<18]"
  let ?blk = "1 # 2 # 3 # 4 # 5 # replicate 13 (0 :: byte)"
  let ?data = "Map.empty(0 \<mapsto> ?blk) :: uint \<Rightarrow> byte list option"
  have up: "UpdateControllerData bytes_PadData i b pd = pd @ [b]" for i b pd
    by (simp add: bytes_PadData_def)
  have fd: "frameData_loop bytes_PadData bs i acc = acc @ bs" for bs i acc
    by (induction bs arbitrary: i acc) (simp_all add: bytes_PadData_def)
  have pn: "PadData_new bytes_PadData = []" by (simp add: bytes_PadData_def)
  have sk: "fseek ?f 570 truncated_world = (0, \<lparr>fpath = ''a.p2m2'', fpos = 570, wbuf = []\<rparr>, truncated_world)"
    by (simp add: fseek_def fflush_empty word_sless_alt)
  have l1: "BulkReadPadData_loop pcsx2_decls bytes_PadData 1 0 1 ?blk ?f1 truncated_world ?data =
            Inr (?data, ?f1, truncated_world)"
    by (subst BulkReadPadData_loop.simps) (simp add: word_sless_alt)
  have l0: "BulkReadPadData_loop pcsx2_decls bytes_PadData 1 0 0 ?pad ?f truncated_world Map.empty =
            Inr (?data, ?f1, truncated_world)"
    apply (subst BulkReadPadData_loop.simps)
    apply (simp only: pcsx2_seek_frame0 sk fst_conv snd_conv Let_def)
    apply (simp add: truncated_read word_sless_alt map_insert_def fd l1 pn up
        del: upt_Suc replicate_Suc)
    done
  have u: "unat (controllerInputBytes pcsx2_decls) = 18" by (simp add: pcsx2_decls_def)
  show ?thesis
    by (simp add: BulkReadPadData_def open_store_def fresh_stream_def u l0 word_sless_alt
        del: upt_Suc replicate_Suc)
qed

end
